theory Spec2Isabelle
  imports Complex_Main
begin

section \<open>Numbers and shapes\<close>

text \<open>
  The game computes with JavaScript numbers. They are modelled as \<^typ>\<open>real\<close>: exact
  arithmetic, without rounding, infinities or NaN. The decimal constants of the source
  (16.67, 0.6, 0.0003) are the rationals they denote.

  Every object the physics touches has the fields \<open>x\<close>, \<open>y\<close>, \<open>width\<close> and
  \<open>height\<close>; the player adds its velocity and the \<open>grounded\<close> flag. The records are
  extensible, so a function over \<open>'a rect_scheme\<close> or \<open>'a entity_scheme\<close> takes any
  object with at least those fields and leaves the others as they are.
\<close>

record rect =
  x :: real
  y :: real
  width :: real
  height :: real

record entity = rect +
  velocityX :: real
  velocityY :: real
  grounded :: bool

section \<open>Physics (js/physics.js)\<close>

record physics_obj =
  gravity :: real
  terminalVelocity :: real

definition Physics_new :: physics_obj where
  "Physics_new = \<lparr>gravity = 0.6, terminalVelocity = 15\<rparr>"

text \<open>The singleton \<open>const physics = new Physics()\<close>.\<close>

definition physics :: physics_obj where
  "physics = Physics_new"

text \<open>
  \<open>applyGravity(entity, deltaTime = 1)\<close>: the second argument is optional, \<open>None\<close> is
  the call without it. The function writes \<open>entity.velocityY\<close> and nothing else; the
  physics object is only read, so the model returns the entity alone.
\<close>

definition applyGravity :: "physics_obj \<Rightarrow> 'a entity_scheme \<Rightarrow> real option \<Rightarrow> 'a entity_scheme" where
  "applyGravity this e deltaTime =
     (let dt = (case deltaTime of None \<Rightarrow> 1 | Some d \<Rightarrow> d);
          e1 = e\<lparr>velocityY := velocityY e + gravity this * dt\<rparr>
      in if velocityY e1 > terminalVelocity this
         then e1\<lparr>velocityY := terminalVelocity this\<rparr>
         else e1)"

definition checkCollision :: "'a rect_scheme \<Rightarrow> 'b rect_scheme \<Rightarrow> bool" where
  "checkCollision a b \<longleftrightarrow>
     x a < x b + width b \<and>
     x a + width a > x b \<and>
     y a < y b + height b \<and>
     y a + height a > y b"

text \<open>
  \<open>resolveGroundCollision(entity, groundY)\<close> returns whether it snapped the entity onto
  the ground, together with the entity.
\<close>

definition resolveGroundCollision :: "'a entity_scheme \<Rightarrow> real \<Rightarrow> bool \<times> 'a entity_scheme" where
  "resolveGroundCollision e groundLevel =
     (if y e + height e > groundLevel
      then (True, e\<lparr>y := groundLevel - height e, velocityY := 0, grounded := True\<rparr>)
      else (False, e))"

section \<open>Audio cues\<close>

text \<open>
  The audio system is an external collaborator. What the core does to it is recorded as
  the list of cues played so far; a method that receives \<open>audioSystem\<close> takes
  \<open>Some log\<close>, and \<open>None\<close> when the caller passes nothing.
\<close>

datatype sound = SoundJump | SoundLand | SoundDeath

type_synonym audioSystem = "sound list"

definition play :: "audioSystem \<Rightarrow> sound \<Rightarrow> audioSystem" where
  "play au s = au @ [s]"

section \<open>Player (js/player.js)\<close>

text \<open>
  A trail entry is the object \<open>{x, y, alpha}\<close>; its fields carry a prefix because the
  names \<open>x\<close> and \<open>y\<close> are the rectangle's. The sprite frames of the player belong to
  the renderer and are left out.
\<close>

record trailPoint =
  trail_x :: real
  trail_y :: real
  alpha :: real

record player = entity +
  jumpPower :: real
  jumpHoldPower :: real
  maxJumpHoldTime :: real
  jumpHoldTimer :: real
  isJumping :: bool
  animationFrame :: nat
  animationTimer :: real
  animationSpeed :: real
  alive :: bool
  trail :: "trailPoint list"
  maxTrailLength :: nat

definition Player_new :: "real \<Rightarrow> real \<Rightarrow> player" where
  "Player_new px py =
     \<lparr>x = px, y = py, width = 32, height = 48,
      velocityX = 0, velocityY = 0, grounded = False,
      jumpPower = - 12, jumpHoldPower = - 0.3, maxJumpHoldTime = 150,
      jumpHoldTimer = 0, isJumping = False,
      animationFrame = 0, animationTimer = 0, animationSpeed = 80,
      alive = True, trail = [], maxTrailLength = 6\<rparr>"

definition jump :: "player \<Rightarrow> audioSystem option \<Rightarrow> player \<times> audioSystem option" where
  "jump this audio =
     (if grounded this
      then (this\<lparr>velocityY := jumpPower this, grounded := False,
                 isJumping := True, jumpHoldTimer := 0\<rparr>,
            map_option (\<lambda>au. play au SoundJump) audio)
      else (this, audio))"

definition holdJump :: "player \<Rightarrow> real \<Rightarrow> player" where
  "holdJump this deltaTime =
     (if isJumping this \<and> jumpHoldTimer this < maxJumpHoldTime this \<and> velocityY this < 0
      then this\<lparr>velocityY := velocityY this + jumpHoldPower this,
                jumpHoldTimer := jumpHoldTimer this + deltaTime\<rparr>
      else this)"

definition releaseJump :: "player \<Rightarrow> player" where
  "releaseJump this = this\<lparr>isJumping := False\<rparr>"

text \<open>
  The trail: \<open>unshift\<close> puts the new point in front, \<open>pop\<close> drops the last one when
  the list is too long, and the loop sets \<open>alpha\<close> of the entry at index \<open>i\<close> to
  \<open>1 - i / maxTrailLength\<close>.
\<close>

definition fadeTrail :: "nat \<Rightarrow> trailPoint list \<Rightarrow> trailPoint list" where
  "fadeTrail n ps =
     map (\<lambda>(i, p). p\<lparr>alpha := 1 - real i / real n\<rparr>) (zip [0 ..< length ps] ps)"

definition updateTrail :: "player \<Rightarrow> player" where
  "updateTrail this =
     (let t1 = \<lparr>trail_x = x this, trail_y = y this, alpha = 1\<rparr> # trail this;
          t2 = (if length t1 > maxTrailLength this then butlast t1 else t1)
      in this\<lparr>trail := fadeTrail (maxTrailLength this) t2\<rparr>)"

definition updateAnimation :: "player \<Rightarrow> real \<Rightarrow> player" where
  "updateAnimation this deltaTime =
     (let p1 = this\<lparr>animationTimer := animationTimer this + deltaTime\<rparr>
      in if animationTimer p1 \<ge> animationSpeed p1
         then p1\<lparr>animationTimer := 0, animationFrame := (animationFrame p1 + 1) mod 4\<rparr>
         else p1)"

text \<open>
  \<open>Player.update(deltaTime, groundY)\<close> returns \<open>previousY\<close>; the model returns it with
  the updated player.
\<close>

definition Player_update :: "player \<Rightarrow> real \<Rightarrow> real \<Rightarrow> real \<times> player" where
  "Player_update this deltaTime groundLevel =
     (let previousY = y this;
          p1 = applyGravity physics this (Some (deltaTime / 16.67));
          p2 = p1\<lparr>y := y p1 + velocityY p1 * (deltaTime / 16.67)\<rparr>;
          (hit, p3) = resolveGroundCollision p2 groundLevel;
          p4 = (if hit then p3\<lparr>grounded := True, isJumping := False\<rparr>
                else p3\<lparr>grounded := False\<rparr>);
          p5 = updateAnimation p4 deltaTime;
          p6 = updateTrail p5
      in (previousY, p6))"

definition landOnBuilding :: "player \<Rightarrow> real \<Rightarrow> audioSystem option \<Rightarrow> player \<times> audioSystem option" where
  "landOnBuilding this rooftopY audio =
     (this\<lparr>y := rooftopY - height this, velocityY := 0, grounded := True, isJumping := False\<rparr>,
      map_option (\<lambda>au. play au SoundLand) audio)"

definition die :: "player \<Rightarrow> player" where
  "die this = this\<lparr>alive := False\<rparr>"

definition Player_reset :: "player \<Rightarrow> real \<Rightarrow> real \<Rightarrow> player" where
  "Player_reset this px py =
     this\<lparr>x := px, y := py, velocityX := 0, velocityY := 0, grounded := False,
          alive := True, isJumping := False, trail := [], animationFrame := 0\<rparr>"

section \<open>Utilities (Utils and ObjectPool, in js/audio.js)\<close>

definition clamp :: "real \<Rightarrow> real \<Rightarrow> real \<Rightarrow> real" where
  "clamp v lo hi = max lo (min hi v)"

text \<open>
  The platforms are JavaScript objects, shared by reference between the world's list
  \<open>buildings\<close> and the object pool, and mutated in place. The model keeps them in an
  explicit heap: an address is a natural number, \<open>objs\<close> maps an address to the object
  stored there, and \<open>fresh\<close> is the next unused address. The field \<open>image\<close> (always
  reset to \<open>null\<close> by the world, filled by the renderer) is left out.
\<close>

type_synonym addr = nat

record building = rect +
  active :: bool
  style :: int

record heap =
  objs :: "addr \<Rightarrow> building"
  fresh :: addr

text \<open>
  The two callbacks the world gives its pool: \<open>createFn\<close> allocates
  \<open>{x: 0, y: 0, width: 0, height: 0, active: false, style: 0}\<close>, \<open>resetFn\<close> clears
  \<open>active\<close>.
\<close>

definition createFn :: "heap \<Rightarrow> addr \<times> heap" where
  "createFn h =
     (fresh h,
      h\<lparr>objs := (objs h)(fresh h := \<lparr>x = 0, y = 0, width = 0, height = 0, active = False, style = 0\<rparr>),
        fresh := Suc (fresh h)\<rparr>)"

definition resetFn :: "addr \<Rightarrow> heap \<Rightarrow> heap" where
  "resetFn obj h = h\<lparr>objs := (objs h)(obj := (objs h obj)\<lparr>active := False\<rparr>)\<rparr>"

text \<open>
  The pool's two arrays. The source calls the second one \<open>active\<close>; it is
  \<open>activeObjs\<close> here because \<open>active\<close> is the platform's flag.
\<close>

record objectPool =
  pool :: "addr list"
  activeObjs :: "addr list"

fun prepopulate :: "nat \<Rightarrow> objectPool \<Rightarrow> heap \<Rightarrow> objectPool \<times> heap" where
  "prepopulate 0 this h = (this, h)"
| "prepopulate (Suc n) this h =
     (let (obj, h1) = createFn h
      in prepopulate n (this\<lparr>pool := pool this @ [obj]\<rparr>) h1)"

definition ObjectPool_new :: "nat \<Rightarrow> heap \<Rightarrow> objectPool \<times> heap" where
  "ObjectPool_new initialSize h = prepopulate initialSize \<lparr>pool = [], activeObjs = []\<rparr> h"

text \<open>
  \<open>get\<close>: \<open>this.pool.pop() || this.createFn()\<close> takes the last pooled object, or
  allocates when the pool is empty, and pushes it on the active array.
\<close>

definition ObjectPool_get :: "objectPool \<Rightarrow> heap \<Rightarrow> addr \<times> objectPool \<times> heap" where
  "ObjectPool_get this h =
     (let (obj, p1, h1) =
            (if pool this = []
             then (let (a, h') = createFn h in (a, this, h'))
             else (last (pool this), this\<lparr>pool := butlast (pool this)\<rparr>, h))
      in (obj, p1\<lparr>activeObjs := activeObjs p1 @ [obj]\<rparr>, h1))"

text \<open>
  \<open>release\<close>: \<open>indexOf\<close> and \<open>splice(index, 1)\<close> remove the first occurrence of the
  object from the active array; an object that is not there is ignored.
\<close>

definition ObjectPool_release :: "objectPool \<Rightarrow> addr \<Rightarrow> heap \<Rightarrow> objectPool \<times> heap" where
  "ObjectPool_release this obj h =
     (if obj \<in> set (activeObjs this)
      then (this\<lparr>activeObjs := remove1 obj (activeObjs this), pool := pool this @ [obj]\<rparr>,
            resetFn obj h)
      else (this, h))"

section \<open>World (the world generator)\<close>

text \<open>
  The world's fields, followed by the two parts of the environment its methods use:
  \<open>mem\<close>, the heap holding the platform objects, and \<open>randoms\<close>, the values that the
  coming calls of \<open>Math.random()\<close> will return to the platform generator, in order.
  Rain and the parallax layers are drawn and moved by the world but read by the
  renderer only; they, and the random numbers they consume, are left out.
\<close>

record world =
  canvasWidth :: real
  canvasHeight :: real
  groundY :: real
  scrollSpeed :: real
  baseSpeed :: real
  maxSpeed :: real
  speedIncreaseRate :: real
  buildings :: "addr list"
  buildingPool :: objectPool
  worldOffset :: real
  lastBuildingEnd :: real
  distanceTraveled :: real
  difficulty :: real
  minBuildingWidth :: real
  maxBuildingWidth :: real
  minGap :: real
  maxGap :: real
  heightVariation :: real
  mem :: heap
  randoms :: "nat \<Rightarrow> real"

definition bld :: "world \<Rightarrow> addr \<Rightarrow> building" where
  "bld w a = objs (mem w) a"

definition Math_random :: "world \<Rightarrow> real \<times> world" where
  "Math_random w = (randoms w 0, w\<lparr>randoms := (\<lambda>n. randoms w (Suc n))\<rparr>)"

definition Utils_random :: "real \<Rightarrow> real \<Rightarrow> world \<Rightarrow> real \<times> world" where
  "Utils_random lo hi w = (let (u, w1) = Math_random w in (u * (hi - lo) + lo, w1))"

definition Utils_randomInt :: "int \<Rightarrow> int \<Rightarrow> world \<Rightarrow> int \<times> world" where
  "Utils_randomInt lo hi w =
     (let (u, w1) = Math_random w in (\<lfloor>u * real_of_int (hi - lo + 1)\<rfloor> + lo, w1))"

definition World_new :: "real \<Rightarrow> real \<Rightarrow> (nat \<Rightarrow> real) \<Rightarrow> world" where
  "World_new cw ch rs =
     (let (pl, h) = ObjectPool_new 15 \<lparr>objs = (\<lambda>_. \<lparr>x = 0, y = 0, width = 0, height = 0, active = False, style = 0\<rparr>), fresh = 0\<rparr>
      in \<lparr>canvasWidth = cw, canvasHeight = ch, groundY = ch - 100,
          scrollSpeed = 6, baseSpeed = 6, maxSpeed = 14, speedIncreaseRate = 0.0003,
          buildings = [], buildingPool = pl,
          worldOffset = 0, lastBuildingEnd = 0, distanceTraveled = 0, difficulty = 1,
          minBuildingWidth = 200, maxBuildingWidth = 500, minGap = 80, maxGap = 200,
          heightVariation = 80, mem = h, randoms = rs\<rparr>)"

definition addBuilding :: "world \<Rightarrow> real \<Rightarrow> real \<Rightarrow> real \<Rightarrow> world" where
  "addBuilding this bx by bwidth =
     (let (a, pl, h) = ObjectPool_get (buildingPool this) (mem this);
          w1 = this\<lparr>buildingPool := pl, mem := h\<rparr>;
          (st, w2) = Utils_randomInt 0 2 w1;
          b = (bld w2 a)\<lparr>x := bx, y := by, width := bwidth,
                          height := canvasHeight w2 - by + 200, active := True, style := st\<rparr>
      in w2\<lparr>mem := (mem w2)\<lparr>objs := (objs (mem w2))(a := b)\<rparr>,
            buildings := buildings w2 @ [a]\<rparr>)"

definition generateNextBuilding :: "world \<Rightarrow> world" where
  "generateNextBuilding this =
     (let difficultyMultiplier = min (difficulty this) 2;
          (gap, w1) = Utils_random (minGap this * difficultyMultiplier)
                                   (maxGap this * difficultyMultiplier) this;
          widthReduction = min (difficulty w1 * 20) 150;
          (bwidth, w2) = Utils_random (max (minBuildingWidth w1 - widthReduction) 120)
                                      (max (maxBuildingWidth w1 - widthReduction) 250) w1;
          baseY = (if buildings w2 = [] then groundY w2 else y (bld w2 (last (buildings w2))));
          (heightChange, w3) = Utils_random (- heightVariation w2) (heightVariation w2) w2;
          newY = clamp (baseY + heightChange) (groundY w3 - 100) (groundY w3 + 60);
          bx = lastBuildingEnd w3 + gap;
          w4 = addBuilding w3 bx newY bwidth
      in w4\<lparr>lastBuildingEnd := bx + bwidth\<rparr>)"

text \<open>
  The two \<open>while\<close> loops that call \<open>generateNextBuilding\<close> stop only when the
  frontier has passed their bound, which depends on the numbers drawn; a loop that does
  not stop is the value \<open>None\<close>.
\<close>

partial_function (option) generateInitialLoop :: "world \<Rightarrow> world option" where
  "generateInitialLoop this =
     (if lastBuildingEnd this < canvasWidth this + 800
      then generateInitialLoop (generateNextBuilding this)
      else Some this)"

definition generateInitialBuildings :: "world \<Rightarrow> world option" where
  "generateInitialBuildings this =
     generateInitialLoop ((addBuilding this 0 (groundY this) 400)\<lparr>lastBuildingEnd := 400\<rparr>)"

text \<open>\<open>init(assets)\<close>; rain and background layers are left out.\<close>

definition World_init :: "world \<Rightarrow> world option" where
  "World_init this = generateInitialBuildings this"

text \<open>
  The body of the loop over \<open>buildings\<close> in \<open>update\<close>, at index \<open>i\<close>: move the
  platform left and, when it has left the screen, \<open>splice\<close> it out of the list and
  release it. The loop runs from the last index down to 0, so
  \<open>scrollBuildings (length (buildings w))\<close> is the whole loop and every index it
  reads is in range.
\<close>

definition scrollBuilding :: "nat \<Rightarrow> real \<Rightarrow> world \<Rightarrow> world" where
  "scrollBuilding i scrollAmount this =
     (let a = buildings this ! i;
          b = (bld this a)\<lparr>x := x (bld this a) - scrollAmount\<rparr>;
          w1 = this\<lparr>mem := (mem this)\<lparr>objs := (objs (mem this))(a := b)\<rparr>\<rparr>
      in if x b + width b < - 50
         then (let (pl, h) = ObjectPool_release (buildingPool w1) a (mem w1)
               in w1\<lparr>buildings := take i (buildings w1) @ drop (Suc i) (buildings w1),
                     buildingPool := pl, mem := h\<rparr>)
         else w1)"

fun scrollBuildings :: "nat \<Rightarrow> real \<Rightarrow> world \<Rightarrow> world" where
  "scrollBuildings 0 scrollAmount this = this"
| "scrollBuildings (Suc i) scrollAmount this =
     scrollBuildings i scrollAmount (scrollBuilding i scrollAmount this)"

partial_function (option) generateAheadLoop :: "world \<Rightarrow> world option" where
  "generateAheadLoop this =
     (if lastBuildingEnd this - worldOffset this < canvasWidth this + 600
      then generateAheadLoop (generateNextBuilding this)
      else Some this)"

definition World_update :: "world \<Rightarrow> real \<Rightarrow> world option" where
  "World_update this deltaTime =
     (let scrollAmount = scrollSpeed this * (deltaTime / 16.67);
          w1 = this\<lparr>worldOffset := worldOffset this + scrollAmount,
                    distanceTraveled := distanceTraveled this + scrollAmount\<rparr>;
          w2 = w1\<lparr>scrollSpeed := min (maxSpeed w1)
                                     (baseSpeed w1 + distanceTraveled w1 * speedIncreaseRate w1)\<rparr>;
          w3 = w2\<lparr>difficulty := 1 + distanceTraveled w2 / 3000\<rparr>;
          w4 = scrollBuildings (length (buildings w3)) scrollAmount w3
      in case generateAheadLoop w4 of
           None \<Rightarrow> None
         | Some w5 \<Rightarrow> Some (w5\<lparr>lastBuildingEnd := lastBuildingEnd w5 - scrollAmount\<rparr>))"

text \<open>
  \<open>getBuildingAt(x, width)\<close> returns the first platform of the list that is active
  and whose closed span holds the point; the second argument is not used.
\<close>

definition getBuildingAt :: "world \<Rightarrow> real \<Rightarrow> real \<Rightarrow> addr option" where
  "getBuildingAt this px pwidth =
     List.find (\<lambda>a. active (bld this a) \<and> px \<ge> x (bld this a)
                     \<and> px \<le> x (bld this a) + width (bld this a))
       (buildings this)"

definition isOverGap :: "world \<Rightarrow> real \<Rightarrow> real \<Rightarrow> bool" where
  "isOverGap this px pwidth \<longleftrightarrow> getBuildingAt this px pwidth = None"

definition releaseAllBuildings :: "world \<Rightarrow> world" where
  "releaseAllBuildings this =
     (let (pl, h) = fold (\<lambda>b (pl, h). ObjectPool_release pl b h) (buildings this)
                      (buildingPool this, mem this)
      in this\<lparr>buildingPool := pl, mem := h\<rparr>)"

definition World_reset :: "world \<Rightarrow> world option" where
  "World_reset this =
     (let w1 = (releaseAllBuildings this)\<lparr>buildings := []\<rparr>;
          w2 = w1\<lparr>worldOffset := 0, lastBuildingEnd := 0, difficulty := 1,
                  distanceTraveled := 0, scrollSpeed := baseSpeed w1\<rparr>
      in generateInitialBuildings w2)"

section \<open>Game (js/game.js)\<close>

text \<open>
  The run controller. Of the browser it keeps the canvas size (set to 800 by 600 by
  \<open>resizeCanvas\<close>), the best score kept in \<open>localStorage\<close> and the cues sent to the
  audio system; the DOM, the renderer and the timers that only show or hide elements are
  left out.
\<close>

datatype gameState = Menu | Playing | GameOver

record game =
  state :: gameState
  score :: real
  highScore :: int
  storedHighScore :: int
  paused :: bool
  lastTime :: real
  deltaTime :: real
  deathAnimationProgress :: real
  deathAnimationDuration :: real
  canvas_width :: real
  canvas_height :: real
  audio :: audioSystem
  world :: world
  player :: player
  keys_jump :: bool
  keys_jumpPressed :: bool

definition Game_new :: "int \<Rightarrow> (nat \<Rightarrow> real) \<Rightarrow> game option" where
  "Game_new stored rs =
     (case World_init (World_new 800 600 rs) of
        None \<Rightarrow> None
      | Some w \<Rightarrow>
          Some \<lparr>state = Menu, score = 0, highScore = stored, storedHighScore = stored,
                paused = False, lastTime = 0, deltaTime = 0,
                deathAnimationProgress = 0, deathAnimationDuration = 500,
                canvas_width = 800, canvas_height = 600, audio = [],
                world = w, player = Player_new 100 (groundY w - 48),
                keys_jump = False, keys_jumpPressed = False\<rparr>)"

definition startGame :: "game \<Rightarrow> game option" where
  "startGame this =
     (let g1 = this\<lparr>state := Playing, score := 0, deathAnimationProgress := 0\<rparr>
      in case World_reset (world g1) of
           None \<Rightarrow> None
         | Some w \<Rightarrow>
             Some (g1\<lparr>world := w, player := Player_reset (player g1) 100 (groundY w - 48)\<rparr>))"

text \<open>
  \<open>gameOver\<close>: \<open>Utils.setHighScore\<close> stores the floored score when it beats the stored
  one, and \<open>highScore\<close> is read back.
\<close>

definition gameOver :: "game \<Rightarrow> game" where
  "gameOver this =
     (let g1 = this\<lparr>state := GameOver, audio := play (audio this) SoundDeath\<rparr>;
          g2 = (if \<lfloor>score g1\<rfloor> > storedHighScore g1
                then g1\<lparr>storedHighScore := \<lfloor>score g1\<rfloor>\<rparr> else g1);
          g3 = g2\<lparr>highScore := storedHighScore g2\<rparr>
      in g3\<lparr>deathAnimationProgress := 0\<rparr>)"

definition isJumpKey :: "string \<Rightarrow> bool" where
  "isJumpKey code \<longleftrightarrow> code = ''Space'' \<or> code = ''ArrowUp'' \<or> code = ''KeyW''"

definition pressJump :: "game \<Rightarrow> game" where
  "pressJump this =
     (let g1 = (if \<not> keys_jumpPressed this
                then (case jump (player this) (Some (audio this)) of
                        (p, au) \<Rightarrow> this\<lparr>keys_jumpPressed := True, player := p,
                                          audio := (case au of Some l \<Rightarrow> l | None \<Rightarrow> audio this)\<rparr>)
                else this)
      in g1\<lparr>keys_jump := True\<rparr>)"

definition handleKeyDown :: "game \<Rightarrow> string \<Rightarrow> game option" where
  "handleKeyDown this code =
     (if isJumpKey code
      then (if state this = Menu then startGame this
            else if state this = GameOver \<and> deathAnimationProgress this \<ge> 1 then startGame this
            else if state this = Playing then Some (pressJump this)
            else Some this)
      else Some this)"

definition handleTouchEnd :: "game \<Rightarrow> game" where
  "handleTouchEnd this =
     this\<lparr>keys_jump := False, keys_jumpPressed := False, player := releaseJump (player this)\<rparr>"

definition handleKeyUp :: "game \<Rightarrow> string \<Rightarrow> game" where
  "handleKeyUp this code = (if isJumpKey code then handleTouchEnd this else this)"

definition handleTouch :: "game \<Rightarrow> game" where
  "handleTouch this = (if state this = Playing then pressJump this else this)"

text \<open>
  \<open>handleVisibilityChange\<close>: \<open>hidden\<close> is \<open>document.hidden\<close> and \<open>now\<close> is what
  \<open>performance.now()\<close> returns.
\<close>

definition handleVisibilityChange :: "game \<Rightarrow> bool \<Rightarrow> real \<Rightarrow> game" where
  "handleVisibilityChange this hidden now =
     (if hidden then this\<lparr>paused := True\<rparr> else this\<lparr>paused := False, lastTime := now\<rparr>)"

text \<open>
  The loop of \<open>update\<close> over \<open>world.buildings\<close> looks for an active platform whose left
  wall the player has run into; the player is not changed inside the loop, so the loop
  is the test whether such a platform exists.
\<close>

definition hitsSide :: "real \<Rightarrow> player \<Rightarrow> building \<Rightarrow> bool" where
  "hitsSide canvasH p b \<longleftrightarrow>
     (let playerRight = x p + width p;
          playerBottom = y p + height p
      in active b \<and> playerRight > x b \<and> x p < x b \<and> playerBottom > y b + 10 \<and> y p < canvasH)"

definition sideCollision :: "game \<Rightarrow> bool" where
  "sideCollision this \<longleftrightarrow>
     list_ex (\<lambda>a. hitsSide (canvas_height this) (player this) (bld (world this) a))
       (buildings (world this))"

text \<open>
  The landing test of \<open>update\<close>, for the platform under the player's feet (if any):
  \<open>LandOn\<close> when the player crossed the rooftop from above, \<open>Crash\<close> when it crossed
  it without having been above it, \<open>NoLanding\<close> otherwise.
\<close>

datatype landing = NoLanding | LandOn | Crash

definition landingCheck :: "player \<Rightarrow> real \<Rightarrow> bool \<Rightarrow> building option \<Rightarrow> landing" where
  "landingCheck p previousY wasGrounded currentBuilding =
     (case currentBuilding of
        None \<Rightarrow> NoLanding
      | Some b \<Rightarrow>
          if \<not> wasGrounded \<and> velocityY p > 0
          then (if previousY + height p \<le> y b + 5 \<and> y p + height p \<ge> y b
                then (if previousY < y b then LandOn else Crash)
                else NoLanding)
          else NoLanding)"

text \<open>\<open>this.player.die(); this.gameOver(); return\<close>, the end of each fatal branch.\<close>

definition killPlayer :: "game \<Rightarrow> game" where
  "killPlayer this = gameOver (this\<lparr>player := die (player this)\<rparr>)"

text \<open>
  \<open>update\<close>, in the order of the source. \<open>currentBuilding\<close> is a reference to a
  platform; the world does not change after \<open>world.update\<close> within the tick, so the
  model takes the object's value at that moment.
\<close>

text \<open>The variable jump height: \<open>if (this.keys.jump) this.player.holdJump(this.deltaTime)\<close>.\<close>

definition heldJump :: "game \<Rightarrow> game" where
  "heldJump this =
     (if keys_jump this
      then this\<lparr>player := holdJump (player this) (deltaTime this)\<rparr> else this)"

text \<open>The platform under the player's feet, \<open>getBuildingAt(player.x + player.width / 2, 1)\<close>.\<close>

definition feetBuilding :: "world \<Rightarrow> player \<Rightarrow> building option" where
  "feetBuilding w p = map_option (bld w) (getBuildingAt w (x p + width p / 2) 1)"

text \<open>The ground level: the rooftop of that platform, or far below the canvas over a gap.\<close>

definition groundLevelFor :: "real \<Rightarrow> building option \<Rightarrow> real" where
  "groundLevelFor canvasH currentBuilding =
     (case currentBuilding of Some b \<Rightarrow> y b | None \<Rightarrow> canvasH + 500)"

text \<open>Walking off an edge, then \<open>player.update(deltaTime, groundY)\<close>.\<close>

definition playerPhysics :: "game \<Rightarrow> bool \<Rightarrow> building option \<Rightarrow> game" where
  "playerPhysics this wasGrounded currentBuilding =
     (let groundLevel = groundLevelFor (canvas_height this) currentBuilding;
          g2 = (if wasGrounded \<and> currentBuilding = None
                then this\<lparr>player := (player this)\<lparr>grounded := False\<rparr>\<rparr> else this)
      in g2\<lparr>player := snd (Player_update (player g2) (deltaTime g2) groundLevel)\<rparr>)"

text \<open>
  The rest of the tick: the landing test, the side collision, the fall below the screen
  and the score. Each fatal branch returns at once.
\<close>

definition resolveTick :: "game \<Rightarrow> real \<Rightarrow> bool \<Rightarrow> building option \<Rightarrow> game" where
  "resolveTick this previousY wasGrounded currentBuilding =
     (let landed = landingCheck (player this) previousY wasGrounded currentBuilding
      in if landed = Crash then killPlayer this
         else
           (let g4 = (case (landed, currentBuilding) of
                        (LandOn, Some b) \<Rightarrow>
                          (case landOnBuilding (player this) (y b) (Some (audio this)) of
                             (p, au) \<Rightarrow> this\<lparr>player := p,
                                              audio := (case au of Some l \<Rightarrow> l | None \<Rightarrow> audio this)\<rparr>)
                      | _ \<Rightarrow> this)
            in if sideCollision g4 then killPlayer g4
               else if y (player g4) > canvas_height g4 + 50 then killPlayer g4
               else g4\<lparr>score := score g4
                              + (scrollSpeed (world g4) / 10) * (deltaTime g4 / 16.67)\<rparr>))"

text \<open>The whole tick; \<open>None\<close> when \<open>world.update\<close> does not return.\<close>

definition Game_update :: "game \<Rightarrow> game option" where
  "Game_update this =
     (let g0 = heldJump this;
          previousY = y (player g0);
          wasGrounded = grounded (player g0)
      in case World_update (world g0) (deltaTime g0) of
           None \<Rightarrow> None
         | Some w \<Rightarrow>
             (let g1 = g0\<lparr>world := w\<rparr>;
                  currentBuilding = feetBuilding w (player g1);
                  g3 = playerPhysics g1 wasGrounded currentBuilding
              in Some (resolveTick g3 previousY wasGrounded currentBuilding)))"

text \<open>
  \<open>gameLoop(timestamp)\<close>: the time since the last frame, replaced by one nominal frame
  when it is more than 100 ms; rendering and the request for the next frame are left
  out.
\<close>

definition gameLoop :: "game \<Rightarrow> real \<Rightarrow> game option" where
  "gameLoop this timestamp =
     (let g1 = this\<lparr>deltaTime := timestamp - lastTime this, lastTime := timestamp\<rparr>;
          g2 = (if deltaTime g1 > 100 then g1\<lparr>deltaTime := 16.67\<rparr> else g1)
      in if \<not> paused g2
         then (if state g2 = Playing then Game_update g2
               else if state g2 = GameOver \<and> deathAnimationProgress g2 < 1
               then Some (g2\<lparr>deathAnimationProgress :=
                               deathAnimationProgress g2 + deltaTime g2 / deathAnimationDuration g2\<rparr>)
               else Some g2)
         else Some g2)"

section \<open>Runs and invariants\<close>

text \<open>
  What \<open>generateNextBuilding\<close> is about to compute from the next three random numbers:
  the gap, the width and the rooftop level of the next platform.
\<close>

definition nextGap :: "world \<Rightarrow> real" where
  "nextGap w =
     randoms w 0 * (maxGap w * min (difficulty w) 2 - minGap w * min (difficulty w) 2)
       + minGap w * min (difficulty w) 2"

definition nextWidth :: "world \<Rightarrow> real" where
  "nextWidth w =
     randoms w 1 * (max (maxBuildingWidth w - min (difficulty w * 20) 150) 250
                     - max (minBuildingWidth w - min (difficulty w * 20) 150) 120)
       + max (minBuildingWidth w - min (difficulty w * 20) 150) 120"

definition nextY :: "world \<Rightarrow> real" where
  "nextY w =
     clamp ((if buildings w = [] then groundY w else y (bld w (last (buildings w))))
              + (randoms w 2 * (heightVariation w - - heightVariation w) + - heightVariation w))
       (groundY w - 100) (groundY w + 60)"

text \<open>
  The world with the platform list, the pool, the heap, the random stream and the
  frontier blanked: two worlds with the same \<open>settings\<close> agree on every other field.
\<close>

definition settings :: "world \<Rightarrow> world" where
  "settings w =
     w\<lparr>buildings := [], buildingPool := \<lparr>pool = [], activeObjs = []\<rparr>,
       mem := \<lparr>objs = (\<lambda>_. \<lparr>x = 0, y = 0, width = 0, height = 0, active = False, style = 0\<rparr>),
               fresh = 0\<rparr>,
       randoms := (\<lambda>_. 0), lastBuildingEnd := 0\<rparr>"

text \<open>The constants the constructor gives a world; no method changes them.\<close>

definition config_ok :: "world \<Rightarrow> bool" where
  "config_ok w \<longleftrightarrow>
     baseSpeed w = 6 \<and> maxSpeed w = 14 \<and> speedIncreaseRate w = 0.0003
     \<and> minBuildingWidth w = 200 \<and> maxBuildingWidth w = 500
     \<and> minGap w = 80 \<and> maxGap w = 200 \<and> heightVariation w = 80
     \<and> groundY w = canvasHeight w - 100"

text \<open>\<open>Math.random()\<close> returns a number that is at least 0 and less than 1.\<close>

definition unit_interval :: "(nat \<Rightarrow> real) \<Rightarrow> bool" where
  "unit_interval rs \<longleftrightarrow> (\<forall>n. 0 \<le> rs n \<and> rs n < 1)"

text \<open>
  The pool and the list of platforms share no object by accident: the pool's two arrays
  are duplicate-free and disjoint, every address in them is allocated, and the platforms
  of the world are distinct objects taken from the active array.
\<close>

definition pool_ok :: "world \<Rightarrow> bool" where
  "pool_ok w \<longleftrightarrow>
     distinct (activeObjs (buildingPool w)) \<and> distinct (pool (buildingPool w))
     \<and> set (activeObjs (buildingPool w)) \<inter> set (pool (buildingPool w)) = {}
     \<and> (\<forall>a \<in> set (activeObjs (buildingPool w)) \<union> set (pool (buildingPool w)). a < fresh (mem w))
     \<and> set (buildings w) \<subseteq> set (activeObjs (buildingPool w))
     \<and> distinct (buildings w)"

text \<open>The pool alone: its part of \<open>pool_ok\<close>, for a pool and the heap it lives in.\<close>

definition pool_wf :: "objectPool \<Rightarrow> heap \<Rightarrow> bool" where
  "pool_wf pl h \<longleftrightarrow>
     distinct (activeObjs pl) \<and> distinct (pool pl)
     \<and> set (activeObjs pl) \<inter> set (pool pl) = {}
     \<and> (\<forall>a \<in> set (activeObjs pl) \<union> set (pool pl). a < fresh h)"

text \<open>What the generator needs to make progress: each step then moves the frontier on.\<close>

definition generator_ok :: "world \<Rightarrow> bool" where
  "generator_ok w \<longleftrightarrow>
     pool_ok w \<and> config_ok w \<and> unit_interval (randoms w) \<and> 1 \<le> difficulty w"

text \<open>
  The world after the first assignments of \<open>update\<close>, to \<open>worldOffset\<close>,
  \<open>distanceTraveled\<close>, \<open>scrollSpeed\<close> and \<open>difficulty\<close>, and the amount scrolled.
\<close>

definition scrollAmountOf :: "world \<Rightarrow> real \<Rightarrow> real" where
  "scrollAmountOf w dt = scrollSpeed w * (dt / 16.67)"

definition advanced :: "world \<Rightarrow> real \<Rightarrow> world" where
  "advanced w dt =
     w\<lparr>worldOffset := worldOffset w + scrollAmountOf w dt,
       distanceTraveled := distanceTraveled w + scrollAmountOf w dt,
       scrollSpeed := min (maxSpeed w)
                        (baseSpeed w + (distanceTraveled w + scrollAmountOf w dt) * speedIncreaseRate w),
       difficulty := 1 + (distanceTraveled w + scrollAmountOf w dt) / 3000\<rparr>"

text \<open>
  \<open>separated d w\<close>: each platform of the list ends at least \<open>d\<close> before every later
  one begins. With \<open>d = 0\<close> this is the absence of overlap.
\<close>

definition separated :: "real \<Rightarrow> world \<Rightarrow> bool" where
  "separated d w \<longleftrightarrow>
     sorted_wrt (\<lambda>a b. x (bld w a) + width (bld w a) + d \<le> x (bld w b)) (buildings w)"

text \<open>
  The invariant of the generation loops, for a slack \<open>c\<close>: the platforms of the list
  are active, at least 120 wide, at a rooftop level within the clamp's bounds, end at
  most \<open>c\<close> beyond the frontier \<open>lastBuildingEnd\<close>, and are 16 apart.
\<close>

definition platform_ok :: "real \<Rightarrow> world \<Rightarrow> addr \<Rightarrow> bool" where
  "platform_ok c w a \<longleftrightarrow>
     active (bld w a) \<and> 120 \<le> width (bld w a)
     \<and> groundY w - 100 \<le> y (bld w a) \<and> y (bld w a) \<le> groundY w + 60
     \<and> x (bld w a) + width (bld w a) \<le> lastBuildingEnd w + c"

definition frontier_inv :: "real \<Rightarrow> world \<Rightarrow> bool" where
  "frontier_inv c w \<longleftrightarrow>
     pool_ok w \<and> config_ok w \<and> unit_interval (randoms w) \<and> 1 \<le> difficulty w
     \<and> 0 \<le> c \<and> c + 16 \<le> 80 * min (difficulty w) 2
     \<and> list_all (platform_ok c w) (buildings w)
     \<and> separated 16 w"

text \<open>
  The state of the scrolling loop of \<open>update\<close> when the indices from \<open>i\<close> upwards
  have been visited, in terms of the world \<open>w0\<close> the loop started from: the first
  \<open>i\<close> platforms are untouched, the others have moved left by \<open>s\<close> and those that
  left the screen are gone.
\<close>

definition onScreen :: "world \<Rightarrow> real \<Rightarrow> addr \<Rightarrow> bool" where
  "onScreen w0 s a \<longleftrightarrow> \<not> (x (bld w0 a) - s + width (bld w0 a) < - 50)"

definition scrolled_from :: "world \<Rightarrow> real \<Rightarrow> nat \<Rightarrow> world \<Rightarrow> bool" where
  "scrolled_from w0 s i w \<longleftrightarrow>
     pool_ok w \<and> i \<le> length (buildings w0) \<and> distinct (buildings w0)
     \<and> buildings w = take i (buildings w0) @ filter (onScreen w0 s) (drop i (buildings w0))
     \<and> list_all (\<lambda>a. bld w a = bld w0 a) (take i (buildings w0))
     \<and> list_all (\<lambda>a. bld w a = (bld w0 a)\<lparr>x := x (bld w0 a) - s\<rparr>)
          (filter (onScreen w0 s) (drop i (buildings w0)))
     \<and> settings w = settings w0 \<and> lastBuildingEnd w = lastBuildingEnd w0
     \<and> randoms w = randoms w0"

text \<open>
  The invariant between ticks. The frontier may lag behind the true end of the last
  platform by the scroll of one tick, which is at most \<open>100 / 16.67\<close> times the speed
  when the frame time is at most 100 ms.
\<close>

definition world_inv :: "world \<Rightarrow> bool" where
  "world_inv w \<longleftrightarrow>
     frontier_inv (100 / 16.67 * scrollSpeed w) w
     \<and> 0 \<le> distanceTraveled w
     \<and> scrollSpeed w = min 14 (6 + distanceTraveled w * 0.0003)
     \<and> difficulty w = 1 + distanceTraveled w / 3000"

text \<open>
  The invariant of a run whose frame times are not negative, whatever their size: the
  generator can make progress, and speed and difficulty are the functions of the
  distance that \<open>update\<close> computes.
\<close>

definition run_inv :: "world \<Rightarrow> bool" where
  "run_inv w \<longleftrightarrow>
     generator_ok w
     \<and> 0 \<le> distanceTraveled w
     \<and> scrollSpeed w = min 14 (6 + distanceTraveled w * 0.0003)
     \<and> difficulty w = 1 + distanceTraveled w / 3000"

text \<open>
  The worlds of a run: built by the constructor and \<open>init\<close> from a stream of random
  numbers, then reset or updated any number of times, each update with a frame time
  that \<open>ok\<close> admits.
\<close>

inductive reachable :: "(real \<Rightarrow> bool) \<Rightarrow> world \<Rightarrow> bool" for ok :: "real \<Rightarrow> bool" where
  reachable_init:
    "unit_interval rs \<Longrightarrow> World_init (World_new cw ch rs) = Some w \<Longrightarrow> reachable ok w"
| reachable_reset:
    "reachable ok w \<Longrightarrow> World_reset w = Some w' \<Longrightarrow> reachable ok w'"
| reachable_update:
    "reachable ok w \<Longrightarrow> ok dt \<Longrightarrow> World_update w dt = Some w' \<Longrightarrow> reachable ok w'"

text \<open>
  The two kinds of run the statements speak about: any frame time that is not negative,
  and the frame times that \<open>gameLoop\<close> passes on, which are at most 100 ms.
\<close>

definition any_frame :: "real \<Rightarrow> bool" where
  "any_frame dt \<longleftrightarrow> 0 \<le> dt"

definition capped_frame :: "real \<Rightarrow> bool" where
  "capped_frame dt \<longleftrightarrow> 0 \<le> dt \<and> dt \<le> 100"

text \<open>
  No overlap: of two active platforms of the list, the one generated first (the earlier
  in the list, since platforms are appended and never reordered) ends before the other
  begins.
\<close>

definition no_overlap :: "world \<Rightarrow> bool" where
  "no_overlap w \<longleftrightarrow>
     (\<forall>i j. i < j \<and> j < length (buildings w)
            \<and> active (bld w (buildings w ! i)) \<and> active (bld w (buildings w ! j))
        \<longrightarrow> x (bld w (buildings w ! i)) + width (bld w (buildings w ! i))
              \<le> x (bld w (buildings w ! j)))"

section \<open>Concrete worlds\<close>

text \<open>
  Worlds to run the definitions on. In all of them the random numbers are 0, which
  \<open>Math.random()\<close> may return: every gap and every width is then the smallest the
  difficulty allows, and every rooftop as high as the clamp allows.
\<close>

definition zeros :: "nat \<Rightarrow> real" where
  "zeros = (\<lambda>_. 0)"

definition blank :: building where
  "blank = \<lparr>x = 0, y = 0, width = 0, height = 0, active = False, style = 0\<rparr>"

text \<open>The world that the constructor and \<open>init\<close> build on an 800 by 600 canvas when every
  random number is 0.\<close>

definition first_world :: world where
  "first_world =
     \<lparr>canvasWidth = 800, canvasHeight = 600, groundY = 500,
      scrollSpeed = 6, baseSpeed = 6, maxSpeed = 14, speedIncreaseRate = 0.0003,
      buildings = [14, 13, 12, 11, 10, 9],
      buildingPool = \<lparr>pool = [0, 1, 2, 3, 4, 5, 6, 7, 8], activeObjs = [14, 13, 12, 11, 10, 9]\<rparr>,
      worldOffset = 0, lastBuildingEnd = 1700, distanceTraveled = 0, difficulty = 1,
      minBuildingWidth = 200, maxBuildingWidth = 500, minGap = 80, maxGap = 200,
      heightVariation = 80,
      mem = \<lparr>objs = (\<lambda>_. blank)
          (14 := \<lparr>x = 0, y = 500, width = 400, height = 300, active = True, style = 0\<rparr>,
           13 := \<lparr>x = 480, y = 420, width = 180, height = 380, active = True, style = 0\<rparr>,
           12 := \<lparr>x = 740, y = 400, width = 180, height = 400, active = True, style = 0\<rparr>,
           11 := \<lparr>x = 1000, y = 400, width = 180, height = 400, active = True, style = 0\<rparr>,
           10 := \<lparr>x = 1260, y = 400, width = 180, height = 400, active = True, style = 0\<rparr>,
           9 := \<lparr>x = 1520, y = 400, width = 180, height = 400, active = True, style = 0\<rparr>),
              fresh = 15\<rparr>,
      randoms = zeros\<rparr>"

text \<open>That world after one update with a frame time of 1667 ms (a scroll of 600).\<close>

definition long_frame_world :: world where
  "long_frame_world =
     \<lparr>canvasWidth = 800, canvasHeight = 600, groundY = 500,
      scrollSpeed = 309 / 50, baseSpeed = 6, maxSpeed = 14, speedIncreaseRate = 0.0003,
      buildings = [13, 12, 11, 10, 9, 14, 8],
      buildingPool = \<lparr>pool = [0, 1, 2, 3, 4, 5, 6, 7], activeObjs = [13, 12, 11, 10, 9, 14, 8]\<rparr>,
      worldOffset = 600, lastBuildingEnd = 1644, distanceTraveled = 600, difficulty = 6 / 5,
      minBuildingWidth = 200, maxBuildingWidth = 500, minGap = 80, maxGap = 200,
      heightVariation = 80,
      mem = \<lparr>objs = (\<lambda>_. blank)
          (14 := \<lparr>x = 1796, y = 400, width = 176, height = 400, active = True, style = 0\<rparr>,
           13 := \<lparr>x = - 120, y = 420, width = 180, height = 380, active = True, style = 0\<rparr>,
           12 := \<lparr>x = 140, y = 400, width = 180, height = 400, active = True, style = 0\<rparr>,
           11 := \<lparr>x = 400, y = 400, width = 180, height = 400, active = True, style = 0\<rparr>,
           10 := \<lparr>x = 660, y = 400, width = 180, height = 400, active = True, style = 0\<rparr>,
           9 := \<lparr>x = 920, y = 400, width = 180, height = 400, active = True, style = 0\<rparr>,
           8 := \<lparr>x = 2068, y = 400, width = 176, height = 400, active = True, style = 0\<rparr>),
              fresh = 15\<rparr>,
      randoms = zeros\<rparr>"

text \<open>And after a second update, with a frame time of 0.\<close>

definition overlap_world :: world where
  "overlap_world =
     \<lparr>canvasWidth = 800, canvasHeight = 600, groundY = 500,
      scrollSpeed = 309 / 50, baseSpeed = 6, maxSpeed = 14, speedIncreaseRate = 0.0003,
      buildings = [13, 12, 11, 10, 9, 14, 8, 7, 6],
      buildingPool = \<lparr>pool = [0, 1, 2, 3, 4, 5], activeObjs = [13, 12, 11, 10, 9, 14, 8, 7, 6]\<rparr>,
      worldOffset = 600, lastBuildingEnd = 2188, distanceTraveled = 600, difficulty = 6 / 5,
      minBuildingWidth = 200, maxBuildingWidth = 500, minGap = 80, maxGap = 200,
      heightVariation = 80,
      mem = \<lparr>objs = (\<lambda>_. blank)
          (14 := \<lparr>x = 1796, y = 400, width = 176, height = 400, active = True, style = 0\<rparr>,
           13 := \<lparr>x = - 120, y = 420, width = 180, height = 380, active = True, style = 0\<rparr>,
           12 := \<lparr>x = 140, y = 400, width = 180, height = 400, active = True, style = 0\<rparr>,
           11 := \<lparr>x = 400, y = 400, width = 180, height = 400, active = True, style = 0\<rparr>,
           10 := \<lparr>x = 660, y = 400, width = 180, height = 400, active = True, style = 0\<rparr>,
           9 := \<lparr>x = 920, y = 400, width = 180, height = 400, active = True, style = 0\<rparr>,
           8 := \<lparr>x = 2068, y = 400, width = 176, height = 400, active = True, style = 0\<rparr>,
           7 := \<lparr>x = 1740, y = 400, width = 176, height = 400, active = True, style = 0\<rparr>,
           6 := \<lparr>x = 2012, y = 400, width = 176, height = 400, active = True, style = 0\<rparr>),
              fresh = 15\<rparr>,
      randoms = zeros\<rparr>"

text \<open>The first world after \<open>reset\<close>: the world of a game that has just started.\<close>

definition restart_world :: world where
  "restart_world =
     \<lparr>canvasWidth = 800, canvasHeight = 600, groundY = 500,
      scrollSpeed = 6, baseSpeed = 6, maxSpeed = 14, speedIncreaseRate = 0.0003,
      buildings = [9, 10, 11, 12, 13, 14],
      buildingPool = \<lparr>pool = [0, 1, 2, 3, 4, 5, 6, 7, 8], activeObjs = [9, 10, 11, 12, 13, 14]\<rparr>,
      worldOffset = 0, lastBuildingEnd = 1700, distanceTraveled = 0, difficulty = 1,
      minBuildingWidth = 200, maxBuildingWidth = 500, minGap = 80, maxGap = 200,
      heightVariation = 80,
      mem = \<lparr>objs = (\<lambda>_. blank)
          (14 := \<lparr>x = 1520, y = 400, width = 180, height = 400, active = True, style = 0\<rparr>,
           13 := \<lparr>x = 1260, y = 400, width = 180, height = 400, active = True, style = 0\<rparr>,
           12 := \<lparr>x = 1000, y = 400, width = 180, height = 400, active = True, style = 0\<rparr>,
           11 := \<lparr>x = 740, y = 400, width = 180, height = 400, active = True, style = 0\<rparr>,
           10 := \<lparr>x = 480, y = 420, width = 180, height = 380, active = True, style = 0\<rparr>,
           9 := \<lparr>x = 0, y = 500, width = 400, height = 300, active = True, style = 0\<rparr>),
              fresh = 15\<rparr>,
      randoms = zeros\<rparr>"

text \<open>The same after a second \<open>reset\<close>.\<close>

definition restart_world_again :: world where
  "restart_world_again =
     \<lparr>canvasWidth = 800, canvasHeight = 600, groundY = 500,
      scrollSpeed = 6, baseSpeed = 6, maxSpeed = 14, speedIncreaseRate = 0.0003,
      buildings = [14, 13, 12, 11, 10, 9],
      buildingPool = \<lparr>pool = [0, 1, 2, 3, 4, 5, 6, 7, 8], activeObjs = [14, 13, 12, 11, 10, 9]\<rparr>,
      worldOffset = 0, lastBuildingEnd = 1700, distanceTraveled = 0, difficulty = 1,
      minBuildingWidth = 200, maxBuildingWidth = 500, minGap = 80, maxGap = 200,
      heightVariation = 80,
      mem = \<lparr>objs = (\<lambda>_. blank)
          (14 := \<lparr>x = 0, y = 500, width = 400, height = 300, active = True, style = 0\<rparr>,
           13 := \<lparr>x = 480, y = 420, width = 180, height = 380, active = True, style = 0\<rparr>,
           12 := \<lparr>x = 740, y = 400, width = 180, height = 400, active = True, style = 0\<rparr>,
           11 := \<lparr>x = 1000, y = 400, width = 180, height = 400, active = True, style = 0\<rparr>,
           10 := \<lparr>x = 1260, y = 400, width = 180, height = 400, active = True, style = 0\<rparr>,
           9 := \<lparr>x = 1520, y = 400, width = 180, height = 400, active = True, style = 0\<rparr>),
              fresh = 15\<rparr>,
      randoms = zeros\<rparr>"

text \<open>The restarted world after one update with the nominal frame time of 16.67 ms.\<close>

definition restart_world_next :: world where
  "restart_world_next =
     \<lparr>canvasWidth = 800, canvasHeight = 600, groundY = 500,
      scrollSpeed = 30009 / 5000, baseSpeed = 6, maxSpeed = 14, speedIncreaseRate = 0.0003,
      buildings = [9, 10, 11, 12, 13, 14],
      buildingPool = \<lparr>pool = [0, 1, 2, 3, 4, 5, 6, 7, 8], activeObjs = [9, 10, 11, 12, 13, 14]\<rparr>,
      worldOffset = 6, lastBuildingEnd = 1694, distanceTraveled = 6, difficulty = 501 / 500,
      minBuildingWidth = 200, maxBuildingWidth = 500, minGap = 80, maxGap = 200,
      heightVariation = 80,
      mem = \<lparr>objs = (\<lambda>_. blank)
          (14 := \<lparr>x = 1514, y = 400, width = 180, height = 400, active = True, style = 0\<rparr>,
           13 := \<lparr>x = 1254, y = 400, width = 180, height = 400, active = True, style = 0\<rparr>,
           12 := \<lparr>x = 994, y = 400, width = 180, height = 400, active = True, style = 0\<rparr>,
           11 := \<lparr>x = 734, y = 400, width = 180, height = 400, active = True, style = 0\<rparr>,
           10 := \<lparr>x = 474, y = 420, width = 180, height = 380, active = True, style = 0\<rparr>,
           9 := \<lparr>x = - 6, y = 500, width = 400, height = 300, active = True, style = 0\<rparr>),
              fresh = 15\<rparr>,
      randoms = zeros\<rparr>"

text \<open>
  The first ten frames of a game started in \<open>restart_world\<close>, each with the frame time
  in which the world scrolls by 35.5; these frame times are between 97 and 99 ms. A
  player at \<open>x = 100\<close>, 32 wide, has its feet at 116. After the eighth frame the right
  edge of the first platform is at 116; after the ninth the player is over the gap; after
  the tenth the left wall of the second platform, at 125, is between the player's left
  and right edges.
\<close>

definition stride :: "world \<Rightarrow> real" where
  "stride w = 35.5 * 16.67 / scrollSpeed w"

definition frame_world_1 :: world where
  "frame_world_1 =
     \<lparr>canvasWidth = 800, canvasHeight = 600, groundY = 500,
      scrollSpeed = 120213 / 20000, baseSpeed = 6, maxSpeed = 14, speedIncreaseRate = 0.0003,
      buildings = [9, 10, 11, 12, 13, 14],
      buildingPool = \<lparr>pool = [0, 1, 2, 3, 4, 5, 6, 7, 8], activeObjs = [9, 10, 11, 12, 13, 14]\<rparr>,
      worldOffset = 71 / 2, lastBuildingEnd = 3329 / 2, distanceTraveled = 71 / 2, difficulty = 6071 / 6000,
      minBuildingWidth = 200, maxBuildingWidth = 500, minGap = 80, maxGap = 200,
      heightVariation = 80,
      mem = \<lparr>objs = (\<lambda>_. blank)
          (14 := \<lparr>x = 2969 / 2, y = 400, width = 180, height = 400, active = True, style = 0\<rparr>,
           13 := \<lparr>x = 2449 / 2, y = 400, width = 180, height = 400, active = True, style = 0\<rparr>,
           12 := \<lparr>x = 1929 / 2, y = 400, width = 180, height = 400, active = True, style = 0\<rparr>,
           11 := \<lparr>x = 1409 / 2, y = 400, width = 180, height = 400, active = True, style = 0\<rparr>,
           10 := \<lparr>x = 889 / 2, y = 420, width = 180, height = 380, active = True, style = 0\<rparr>,
           9 := \<lparr>x = - (71 / 2), y = 500, width = 400, height = 300, active = True, style = 0\<rparr>),
              fresh = 15\<rparr>,
      randoms = zeros\<rparr>"

definition frame_world_2 :: world where
  "frame_world_2 =
     \<lparr>canvasWidth = 800, canvasHeight = 600, groundY = 500,
      scrollSpeed = 60213 / 10000, baseSpeed = 6, maxSpeed = 14, speedIncreaseRate = 0.0003,
      buildings = [9, 10, 11, 12, 13, 14],
      buildingPool = \<lparr>pool = [0, 1, 2, 3, 4, 5, 6, 7, 8], activeObjs = [9, 10, 11, 12, 13, 14]\<rparr>,
      worldOffset = 71, lastBuildingEnd = 1629, distanceTraveled = 71, difficulty = 3071 / 3000,
      minBuildingWidth = 200, maxBuildingWidth = 500, minGap = 80, maxGap = 200,
      heightVariation = 80,
      mem = \<lparr>objs = (\<lambda>_. blank)
          (14 := \<lparr>x = 1449, y = 400, width = 180, height = 400, active = True, style = 0\<rparr>,
           13 := \<lparr>x = 1189, y = 400, width = 180, height = 400, active = True, style = 0\<rparr>,
           12 := \<lparr>x = 929, y = 400, width = 180, height = 400, active = True, style = 0\<rparr>,
           11 := \<lparr>x = 669, y = 400, width = 180, height = 400, active = True, style = 0\<rparr>,
           10 := \<lparr>x = 409, y = 420, width = 180, height = 380, active = True, style = 0\<rparr>,
           9 := \<lparr>x = - 71, y = 500, width = 400, height = 300, active = True, style = 0\<rparr>),
              fresh = 15\<rparr>,
      randoms = zeros\<rparr>"

definition frame_world_3 :: world where
  "frame_world_3 =
     \<lparr>canvasWidth = 800, canvasHeight = 600, groundY = 500,
      scrollSpeed = 120639 / 20000, baseSpeed = 6, maxSpeed = 14, speedIncreaseRate = 0.0003,
      buildings = [9, 10, 11, 12, 13, 14],
      buildingPool = \<lparr>pool = [0, 1, 2, 3, 4, 5, 6, 7, 8], activeObjs = [9, 10, 11, 12, 13, 14]\<rparr>,
      worldOffset = 213 / 2, lastBuildingEnd = 3187 / 2, distanceTraveled = 213 / 2, difficulty = 2071 / 2000,
      minBuildingWidth = 200, maxBuildingWidth = 500, minGap = 80, maxGap = 200,
      heightVariation = 80,
      mem = \<lparr>objs = (\<lambda>_. blank)
          (14 := \<lparr>x = 2827 / 2, y = 400, width = 180, height = 400, active = True, style = 0\<rparr>,
           13 := \<lparr>x = 2307 / 2, y = 400, width = 180, height = 400, active = True, style = 0\<rparr>,
           12 := \<lparr>x = 1787 / 2, y = 400, width = 180, height = 400, active = True, style = 0\<rparr>,
           11 := \<lparr>x = 1267 / 2, y = 400, width = 180, height = 400, active = True, style = 0\<rparr>,
           10 := \<lparr>x = 747 / 2, y = 420, width = 180, height = 380, active = True, style = 0\<rparr>,
           9 := \<lparr>x = - (213 / 2), y = 500, width = 400, height = 300, active = True, style = 0\<rparr>),
              fresh = 15\<rparr>,
      randoms = zeros\<rparr>"

definition frame_world_4 :: world where
  "frame_world_4 =
     \<lparr>canvasWidth = 800, canvasHeight = 600, groundY = 500,
      scrollSpeed = 30213 / 5000, baseSpeed = 6, maxSpeed = 14, speedIncreaseRate = 0.0003,
      buildings = [9, 10, 11, 12, 13, 14],
      buildingPool = \<lparr>pool = [0, 1, 2, 3, 4, 5, 6, 7, 8], activeObjs = [9, 10, 11, 12, 13, 14]\<rparr>,
      worldOffset = 142, lastBuildingEnd = 1558, distanceTraveled = 142, difficulty = 1571 / 1500,
      minBuildingWidth = 200, maxBuildingWidth = 500, minGap = 80, maxGap = 200,
      heightVariation = 80,
      mem = \<lparr>objs = (\<lambda>_. blank)
          (14 := \<lparr>x = 1378, y = 400, width = 180, height = 400, active = True, style = 0\<rparr>,
           13 := \<lparr>x = 1118, y = 400, width = 180, height = 400, active = True, style = 0\<rparr>,
           12 := \<lparr>x = 858, y = 400, width = 180, height = 400, active = True, style = 0\<rparr>,
           11 := \<lparr>x = 598, y = 400, width = 180, height = 400, active = True, style = 0\<rparr>,
           10 := \<lparr>x = 338, y = 420, width = 180, height = 380, active = True, style = 0\<rparr>,
           9 := \<lparr>x = - 142, y = 500, width = 400, height = 300, active = True, style = 0\<rparr>),
              fresh = 15\<rparr>,
      randoms = zeros\<rparr>"

definition frame_world_5 :: world where
  "frame_world_5 =
     \<lparr>canvasWidth = 800, canvasHeight = 600, groundY = 500,
      scrollSpeed = 24213 / 4000, baseSpeed = 6, maxSpeed = 14, speedIncreaseRate = 0.0003,
      buildings = [9, 10, 11, 12, 13, 14, 8],
      buildingPool = \<lparr>pool = [0, 1, 2, 3, 4, 5, 6, 7], activeObjs = [9, 10, 11, 12, 13, 14, 8]\<rparr>,
      worldOffset = 355 / 2, lastBuildingEnd = 35721 / 20, distanceTraveled = 355 / 2, difficulty = 1271 / 1200,
      minBuildingWidth = 200, maxBuildingWidth = 500, minGap = 80, maxGap = 200,
      heightVariation = 80,
      mem = \<lparr>objs = (\<lambda>_. blank)
          (14 := \<lparr>x = 2685 / 2, y = 400, width = 180, height = 400, active = True, style = 0\<rparr>,
           13 := \<lparr>x = 2165 / 2, y = 400, width = 180, height = 400, active = True, style = 0\<rparr>,
           12 := \<lparr>x = 1645 / 2, y = 400, width = 180, height = 400, active = True, style = 0\<rparr>,
           11 := \<lparr>x = 1125 / 2, y = 400, width = 180, height = 400, active = True, style = 0\<rparr>,
           10 := \<lparr>x = 605 / 2, y = 420, width = 180, height = 380, active = True, style = 0\<rparr>,
           9 := \<lparr>x = - (355 / 2), y = 500, width = 400, height = 300, active = True, style = 0\<rparr>,
           8 := \<lparr>x = 24641 / 15, y = 400, width = 10729 / 60, height = 400, active = True, style = 0\<rparr>),
              fresh = 15\<rparr>,
      randoms = zeros\<rparr>"

definition frame_world_6 :: world where
  "frame_world_6 =
     \<lparr>canvasWidth = 800, canvasHeight = 600, groundY = 500,
      scrollSpeed = 60639 / 10000, baseSpeed = 6, maxSpeed = 14, speedIncreaseRate = 0.0003,
      buildings = [9, 10, 11, 12, 13, 14, 8],
      buildingPool = \<lparr>pool = [0, 1, 2, 3, 4, 5, 6, 7], activeObjs = [9, 10, 11, 12, 13, 14, 8]\<rparr>,
      worldOffset = 213, lastBuildingEnd = 35011 / 20, distanceTraveled = 213, difficulty = 1071 / 1000,
      minBuildingWidth = 200, maxBuildingWidth = 500, minGap = 80, maxGap = 200,
      heightVariation = 80,
      mem = \<lparr>objs = (\<lambda>_. blank)
          (14 := \<lparr>x = 1307, y = 400, width = 180, height = 400, active = True, style = 0\<rparr>,
           13 := \<lparr>x = 1047, y = 400, width = 180, height = 400, active = True, style = 0\<rparr>,
           12 := \<lparr>x = 787, y = 400, width = 180, height = 400, active = True, style = 0\<rparr>,
           11 := \<lparr>x = 527, y = 400, width = 180, height = 400, active = True, style = 0\<rparr>,
           10 := \<lparr>x = 267, y = 420, width = 180, height = 380, active = True, style = 0\<rparr>,
           9 := \<lparr>x = - 213, y = 500, width = 400, height = 300, active = True, style = 0\<rparr>,
           8 := \<lparr>x = 48217 / 30, y = 400, width = 10729 / 60, height = 400, active = True, style = 0\<rparr>),
              fresh = 15\<rparr>,
      randoms = zeros\<rparr>"

definition frame_world_7 :: world where
  "frame_world_7 =
     \<lparr>canvasWidth = 800, canvasHeight = 600, groundY = 500,
      scrollSpeed = 121491 / 20000, baseSpeed = 6, maxSpeed = 14, speedIncreaseRate = 0.0003,
      buildings = [9, 10, 11, 12, 13, 14, 8],
      buildingPool = \<lparr>pool = [0, 1, 2, 3, 4, 5, 6, 7], activeObjs = [9, 10, 11, 12, 13, 14, 8]\<rparr>,
      worldOffset = 497 / 2, lastBuildingEnd = 34301 / 20, distanceTraveled = 497 / 2, difficulty = 6497 / 6000,
      minBuildingWidth = 200, maxBuildingWidth = 500, minGap = 80, maxGap = 200,
      heightVariation = 80,
      mem = \<lparr>objs = (\<lambda>_. blank)
          (14 := \<lparr>x = 2543 / 2, y = 400, width = 180, height = 400, active = True, style = 0\<rparr>,
           13 := \<lparr>x = 2023 / 2, y = 400, width = 180, height = 400, active = True, style = 0\<rparr>,
           12 := \<lparr>x = 1503 / 2, y = 400, width = 180, height = 400, active = True, style = 0\<rparr>,
           11 := \<lparr>x = 983 / 2, y = 400, width = 180, height = 400, active = True, style = 0\<rparr>,
           10 := \<lparr>x = 463 / 2, y = 420, width = 180, height = 380, active = True, style = 0\<rparr>,
           9 := \<lparr>x = - (497 / 2), y = 500, width = 400, height = 300, active = True, style = 0\<rparr>,
           8 := \<lparr>x = 23576 / 15, y = 400, width = 10729 / 60, height = 400, active = True, style = 0\<rparr>),
              fresh = 15\<rparr>,
      randoms = zeros\<rparr>"

definition frame_world_8 :: world where
  "frame_world_8 =
     \<lparr>canvasWidth = 800, canvasHeight = 600, groundY = 500,
      scrollSpeed = 15213 / 2500, baseSpeed = 6, maxSpeed = 14, speedIncreaseRate = 0.0003,
      buildings = [9, 10, 11, 12, 13, 14, 8],
      buildingPool = \<lparr>pool = [0, 1, 2, 3, 4, 5, 6, 7], activeObjs = [9, 10, 11, 12, 13, 14, 8]\<rparr>,
      worldOffset = 284, lastBuildingEnd = 33591 / 20, distanceTraveled = 284, difficulty = 821 / 750,
      minBuildingWidth = 200, maxBuildingWidth = 500, minGap = 80, maxGap = 200,
      heightVariation = 80,
      mem = \<lparr>objs = (\<lambda>_. blank)
          (14 := \<lparr>x = 1236, y = 400, width = 180, height = 400, active = True, style = 0\<rparr>,
           13 := \<lparr>x = 976, y = 400, width = 180, height = 400, active = True, style = 0\<rparr>,
           12 := \<lparr>x = 716, y = 400, width = 180, height = 400, active = True, style = 0\<rparr>,
           11 := \<lparr>x = 456, y = 400, width = 180, height = 400, active = True, style = 0\<rparr>,
           10 := \<lparr>x = 196, y = 420, width = 180, height = 380, active = True, style = 0\<rparr>,
           9 := \<lparr>x = - 284, y = 500, width = 400, height = 300, active = True, style = 0\<rparr>,
           8 := \<lparr>x = 46087 / 30, y = 400, width = 10729 / 60, height = 400, active = True, style = 0\<rparr>),
              fresh = 15\<rparr>,
      randoms = zeros\<rparr>"

definition frame_world_9 :: world where
  "frame_world_9 =
     \<lparr>canvasWidth = 800, canvasHeight = 600, groundY = 500,
      scrollSpeed = 121917 / 20000, baseSpeed = 6, maxSpeed = 14, speedIncreaseRate = 0.0003,
      buildings = [9, 10, 11, 12, 13, 14, 8, 7],
      buildingPool = \<lparr>pool = [0, 1, 2, 3, 4, 5, 6], activeObjs = [9, 10, 11, 12, 13, 14, 8, 7]\<rparr>,
      worldOffset = 639 / 2, lastBuildingEnd = 47761 / 25, distanceTraveled = 639 / 2, difficulty = 2213 / 2000,
      minBuildingWidth = 200, maxBuildingWidth = 500, minGap = 80, maxGap = 200,
      heightVariation = 80,
      mem = \<lparr>objs = (\<lambda>_. blank)
          (14 := \<lparr>x = 2401 / 2, y = 400, width = 180, height = 400, active = True, style = 0\<rparr>,
           13 := \<lparr>x = 1881 / 2, y = 400, width = 180, height = 400, active = True, style = 0\<rparr>,
           12 := \<lparr>x = 1361 / 2, y = 400, width = 180, height = 400, active = True, style = 0\<rparr>,
           11 := \<lparr>x = 841 / 2, y = 400, width = 180, height = 400, active = True, style = 0\<rparr>,
           10 := \<lparr>x = 321 / 2, y = 420, width = 180, height = 380, active = True, style = 0\<rparr>,
           9 := \<lparr>x = - (639 / 2), y = 500, width = 400, height = 300, active = True, style = 0\<rparr>,
           8 := \<lparr>x = 22511 / 15, y = 400, width = 10729 / 60, height = 400, active = True, style = 0\<rparr>,
           7 := \<lparr>x = 176807 / 100, y = 400, width = 17787 / 100, height = 400, active = True, style = 0\<rparr>),
              fresh = 15\<rparr>,
      randoms = zeros\<rparr>"


section \<open>The state of a tick at its checks, and the states of a game\<close>

text \<open>
  The game at the point where \<open>update\<close> starts its checks: after the held jump, the
  update of the world and \<open>player.update\<close>. \<open>Game_update\<close> is \<open>resolveTick\<close>
  applied to this state.
\<close>

definition physicsTick :: "game \<Rightarrow> game option" where
  "physicsTick this =
     (let g0 = heldJump this
      in case World_update (world g0) (deltaTime g0) of
           None \<Rightarrow> None
         | Some w \<Rightarrow>
             Some (playerPhysics (g0\<lparr>world := w\<rparr>) (grounded (player g0))
                     (feetBuilding w (player g0))))"

text \<open>
  What holds of the game between two ticks: the world satisfies the invariant of a run
  with capped frame times, the canvas of the game is the canvas the world was built
  for, the player has the size the constructor gives it, and the frame time is one that
  \<open>gameLoop\<close> can have stored.
\<close>

definition game_ok :: "game \<Rightarrow> bool" where
  "game_ok g \<longleftrightarrow>
     world_inv (world g) \<and> canvas_height g = canvasHeight (world g)
     \<and> width (player g) = 32 \<and> height (player g) = 48
     \<and> 0 \<le> deltaTime g \<and> deltaTime g \<le> 100"

text \<open>
  The game that the constructor builds when the stored best score is 0 and the random
  numbers are 0, the game after \<open>startGame\<close>, and that game at its first frame of
  16.67 ms.
\<close>

definition fresh_game :: game where
  "fresh_game =
     \<lparr>state = Menu, score = 0, highScore = 0, storedHighScore = 0,
      paused = False, lastTime = 0, deltaTime = 0,
      deathAnimationProgress = 0, deathAnimationDuration = 500,
      canvas_width = 800, canvas_height = 600, audio = [],
      world = first_world, player = Player_new 100 452,
      keys_jump = False, keys_jumpPressed = False\<rparr>"

definition started_game :: game where
  "started_game = fresh_game\<lparr>state := Playing, world := restart_world\<rparr>"

definition first_frame_game :: game where
  "first_frame_game = started_game\<lparr>deltaTime := 16.67, lastTime := 16.67\<rparr>"

text \<open>
  The first lines of \<open>gameLoop\<close>: the game with the frame time stored, as \<open>update\<close>
  finds it.
\<close>

definition frameTime :: "game \<Rightarrow> real \<Rightarrow> game" where
  "frameTime this timestamp =
     (let g1 = this\<lparr>deltaTime := timestamp - lastTime this, lastTime := timestamp\<rparr>
      in if deltaTime g1 > 100 then g1\<lparr>deltaTime := 16.67\<rparr> else g1)"

text \<open>
  The games of a run: the constructor, then the handlers and \<open>gameLoop\<close> in any
  order. The browser calls \<open>gameLoop\<close> with timestamps that do not go back behind the
  time stored by the last call. \<open>updating g\<close> says that \<open>g\<close> is a game at the moment
  \<open>gameLoop\<close> calls \<open>update\<close> in such a run.
\<close>

inductive game_run :: "game \<Rightarrow> bool" where
  game_run_new:
    "unit_interval rs \<Longrightarrow> Game_new stored rs = Some g \<Longrightarrow> game_run g"
| game_run_startGame:
    "game_run g \<Longrightarrow> startGame g = Some g' \<Longrightarrow> game_run g'"
| game_run_keyDown:
    "game_run g \<Longrightarrow> handleKeyDown g code = Some g' \<Longrightarrow> game_run g'"
| game_run_keyUp:
    "game_run g \<Longrightarrow> game_run (handleKeyUp g code)"
| game_run_touch:
    "game_run g \<Longrightarrow> game_run (handleTouch g)"
| game_run_touchEnd:
    "game_run g \<Longrightarrow> game_run (handleTouchEnd g)"
| game_run_visibility:
    "game_run g \<Longrightarrow> game_run (handleVisibilityChange g hidden now)"
| game_run_frame:
    "game_run g \<Longrightarrow> lastTime g \<le> timestamp \<Longrightarrow> gameLoop g timestamp = Some g'
       \<Longrightarrow> game_run g'"

inductive updating :: "game \<Rightarrow> bool" where
  updating_frame:
    "game_run g \<Longrightarrow> lastTime g \<le> timestamp \<Longrightarrow> \<not> paused g \<Longrightarrow> state g = Playing
       \<Longrightarrow> updating (frameTime g timestamp)"

text \<open>
  What holds of every game of a run: the world is one of a run with capped frame times,
  the canvas is the one the world was built for, the player is where and as large as the
  constructor made it, and it is alive while the game is being played.
\<close>

definition game_inv :: "game \<Rightarrow> bool" where
  "game_inv g \<longleftrightarrow>
     reachable capped_frame (world g) \<and> canvas_height g = canvasHeight (world g)
     \<and> x (player g) = 100 \<and> width (player g) = 32 \<and> height (player g) = 48
     \<and> (state g = Playing \<longrightarrow> alive (player g))"



definition edge_game :: game where
  "edge_game =
     started_game\<lparr>world := frame_world_7, deltaTime := stride frame_world_7,
                   player := (Player_new 100 452)\<lparr>grounded := True\<rparr>\<rparr>"

section \<open>Physics: collision and gravity\<close>

text \<open>
  C8. \<open>checkCollision(a, b)\<close> is true exactly when the four strict inequalities of the
  axis-aligned overlap test hold, for rectangles carrying any further fields. Two
  rectangles that only touch, the right edge of \<open>a\<close> on the left edge of \<open>b\<close> or the
  bottom edge of \<open>a\<close> on the top edge of \<open>b\<close>, do not collide, whatever their other
  coordinates are.
\<close>

theorem checkCollision_iff_strict_overlap:
  "(checkCollision a b \<longleftrightarrow>
      x a < x b + width b \<and> x a + width a > x b \<and>
      y a < y b + height b \<and> y a + height a > y b)
   \<and> (x a + width a = x b \<longrightarrow> \<not> checkCollision a b)
   \<and> (x b + width b = x a \<longrightarrow> \<not> checkCollision a b)
   \<and> (y a + height a = y b \<longrightarrow> \<not> checkCollision a b)
   \<and> (y b + height b = y a \<longrightarrow> \<not> checkCollision a b)"
  by (auto simp: checkCollision_def)

theorem checkCollision_iff_strict_overlap_witness:
  "x \<lparr>x = 0, y = 0, width = 10, height = 10\<rparr> + width \<lparr>x = 0, y = 0, width = 10, height = 10\<rparr>
     = x \<lparr>x = 10, y = 5, width = 4, height = 4\<rparr>
   \<and> \<not> checkCollision \<lparr>x = 0, y = 0, width = 10, height = 10\<rparr> \<lparr>x = 10, y = 5, width = 4, height = 4\<rparr>
   \<and> checkCollision \<lparr>x = 0, y = 0, width = 10, height = 10\<rparr> \<lparr>x = 9, y = 5, width = 4, height = 4\<rparr>"
  using checkCollision_iff_strict_overlap
    [of "\<lparr>x = 0, y = 0, width = 10, height = 10\<rparr>" "\<lparr>x = 10, y = 5, width = 4, height = 4\<rparr>"]
    checkCollision_iff_strict_overlap
    [of "\<lparr>x = 0, y = 0, width = 10, height = 10\<rparr>" "\<lparr>x = 9, y = 5, width = 4, height = 4\<rparr>"]
  by simp

text \<open>
  C9. \<open>applyGravity(entity, deltaTime)\<close> returns the entity with \<open>velocityY\<close> replaced
  by the smaller of \<open>velocityY + gravity * deltaTime\<close> and \<open>terminalVelocity\<close>, and with
  every other field, of the entity or of an extension of it, as it was. With the
  singleton physics object the new \<open>velocityY\<close> is at most 15. The omitted argument
  counts as 1.
\<close>

theorem applyGravity_only_velocityY:
  "applyGravity this e (Some dt) =
     e\<lparr>velocityY := min (velocityY e + gravity this * dt) (terminalVelocity this)\<rparr>
   \<and> applyGravity this e None = applyGravity this e (Some 1)
   \<and> velocityY (applyGravity physics e (Some dt)) = min (velocityY e + 0.6 * dt) 15
   \<and> velocityY (applyGravity physics e (Some dt)) \<le> 15
   \<and> x (applyGravity this e (Some dt)) = x e
   \<and> y (applyGravity this e (Some dt)) = y e
   \<and> width (applyGravity this e (Some dt)) = width e
   \<and> height (applyGravity this e (Some dt)) = height e
   \<and> velocityX (applyGravity this e (Some dt)) = velocityX e
   \<and> grounded (applyGravity this e (Some dt)) = grounded e
   \<and> entity.more (applyGravity this e (Some dt)) = entity.more e"
  by (simp add: applyGravity_def physics_def Physics_new_def Let_def min_def)

section \<open>Player: jump\<close>

text \<open>
  C5. \<open>Player.jump\<close> on a grounded player returns, from that one call, the player with
  \<open>velocityY = jumpPower\<close>, \<open>grounded = false\<close>, \<open>isJumping = true\<close> and
  \<open>jumpHoldTimer = 0\<close> and every other field unchanged, and plays the jump cue; for a
  player built by the constructor (and for any player whose \<open>jumpPower\<close> is still the
  constructor's) the new \<open>velocityY\<close> is -12. On a player that is not grounded it
  changes nothing and plays nothing.
\<close>

theorem jump_sets_velocity_when_grounded:
  "(grounded p \<longrightarrow>
      jump p au =
        (p\<lparr>velocityY := jumpPower p, grounded := False, isJumping := True, jumpHoldTimer := 0\<rparr>,
         map_option (\<lambda>a. a @ [SoundJump]) au)
      \<and> velocityY (fst (jump p au)) = jumpPower p
      \<and> \<not> grounded (fst (jump p au))
      \<and> isJumping (fst (jump p au))
      \<and> jumpHoldTimer (fst (jump p au)) = 0
      \<and> (jumpPower p = - 12 \<longrightarrow> velocityY (fst (jump p au)) = - 12))
   \<and> (\<not> grounded p \<longrightarrow> jump p au = (p, au))
   \<and> jumpPower (Player_new px py) = - 12"
  by (simp add: jump_def play_def Player_new_def)

theorem jump_sets_velocity_when_grounded_witness:
  "grounded ((Player_new 100 452)\<lparr>grounded := True\<rparr>)
   \<and> velocityY (fst (jump ((Player_new 100 452)\<lparr>grounded := True\<rparr>) (Some []))) = - 12
   \<and> \<not> grounded (fst (jump ((Player_new 100 452)\<lparr>grounded := True\<rparr>) (Some [])))
   \<and> snd (jump ((Player_new 100 452)\<lparr>grounded := True\<rparr>) (Some [])) = Some [SoundJump]
   \<and> \<not> grounded (Player_new 100 452)
   \<and> jump (Player_new 100 452) (Some []) = (Player_new 100 452, Some [])"
  using jump_sets_velocity_when_grounded [of "(Player_new 100 452)\<lparr>grounded := True\<rparr>" "Some []"]
    jump_sets_velocity_when_grounded [of "Player_new 100 452" "Some []"]
  by (simp add: Player_new_def)

section \<open>The platform generator: one step\<close>

lemma ObjectPool_get_props:
  assumes "ObjectPool_get pl h = (a, pl', h')"
    and "distinct (activeObjs pl)" "distinct (pool pl)" "set (activeObjs pl) \<inter> set (pool pl) = {}"
    and "\<forall>b \<in> set (activeObjs pl) \<union> set (pool pl). b < fresh h"
  shows "a \<notin> set (activeObjs pl)"
    and "activeObjs pl' = activeObjs pl @ [a]"
    and "distinct (pool pl')" "set (pool pl') \<subseteq> set (pool pl)" "a \<notin> set (pool pl')"
    and "fresh h \<le> fresh h'" "a < fresh h'"
    and "\<forall>b. b \<noteq> a \<longrightarrow> objs h' b = objs h b"
proof -
  show "a \<notin> set (activeObjs pl)" 
    using assms
    by (cases "pool pl = []") (auto simp: ObjectPool_get_def createFn_def Let_def split: prod.splits)
  show "activeObjs pl' = activeObjs pl @ [a]" using assms(1)
    by (auto simp: ObjectPool_get_def createFn_def Let_def split: prod.splits if_splits)
  show "distinct (pool pl')" using assms(1,3)
    by (auto simp: ObjectPool_get_def createFn_def Let_def distinct_butlast split: prod.splits if_splits)
  show "set (pool pl') \<subseteq> set (pool pl)"  using assms(1)
    by (auto simp: ObjectPool_get_def createFn_def Let_def  split: prod.splits if_splits dest: in_set_butlastD)
  show "a \<notin> set (pool pl')" using assms(1,3,5)
    apply (cases "pool pl" rule: rev_cases)
    by (auto simp: ObjectPool_get_def createFn_def Let_def  split: prod.splits if_splits)
  show "fresh h \<le> fresh h'" using assms(1)
    by (auto simp: ObjectPool_get_def createFn_def Let_def split: prod.splits if_splits)
  show "a < fresh h'" using assms(1,5) 
    by (auto simp: ObjectPool_get_def createFn_def Let_def split: prod.splits if_splits)
  show "\<forall>b. b \<noteq> a \<longrightarrow> objs h' b = objs h b" using assms(1)
    by (auto simp: ObjectPool_get_def createFn_def Let_def split: prod.splits if_splits)
qed

lemma building_all_fields:
  "(r::building)\<lparr>x := a, y := b, width := c, height := d, active := e, style := f\<rparr>
     = \<lparr>x = a, y = b, width = c, height = d, active = e, style = f\<rparr>"
  by (cases r) simp

lemma addBuilding_expand:
  "addBuilding w bx by' bw =
     (case ObjectPool_get (buildingPool w) (mem w) of
        (a, pl, h) \<Rightarrow>
          w\<lparr>buildingPool := pl,
            mem := h\<lparr>objs := (objs h)(a := \<lparr>x = bx, y = by', width = bw,
                        height = canvasHeight w - by' + 200, active = True,
                        style = \<lfloor>randoms w 0 * 3\<rfloor>\<rparr>)\<rparr>,
            randoms := (\<lambda>n. randoms w (Suc n)),
            buildings := buildings w @ [a]\<rparr>)"
  by (simp add: addBuilding_def Utils_randomInt_def Math_random_def bld_def Let_def
      building_all_fields split: prod.splits)

lemma Utils_random_expand:
  "Utils_random lo hi w = (randoms w 0 * (hi - lo) + lo, w\<lparr>randoms := (\<lambda>n. randoms w (Suc n))\<rparr>)"
  by (simp add: Utils_random_def Math_random_def)

lemma shift3: "(\<lambda>n. randoms w (Suc (Suc (Suc (Suc n))))) = (\<lambda>n. randoms w (n + 4))"
  by (simp add: numeral_eq_Suc)

lemma generateNextBuilding_expand:
  "generateNextBuilding w =
     (case ObjectPool_get (buildingPool w) (mem w) of
        (a, pl, h) \<Rightarrow>
          w\<lparr>buildingPool := pl,
            mem := h\<lparr>objs := (objs h)(a := \<lparr>x = lastBuildingEnd w + nextGap w, y = nextY w,
                        width = nextWidth w,
                        height = canvasHeight w - nextY w + 200, active = True,
                        style = \<lfloor>randoms w 3 * 3\<rfloor>\<rparr>)\<rparr>,
            randoms := (\<lambda>n. randoms w (n + 4)),
            buildings := buildings w @ [a],
            lastBuildingEnd := lastBuildingEnd w + nextGap w + nextWidth w\<rparr>)"
proof -
  have r1: "randoms w (Suc (Suc 0)) = randoms w 2"
     "randoms w (Suc (Suc (Suc 0))) = randoms w 3"
    by (simp_all add: numeral_eq_Suc)
  show ?thesis
    by (simp add: generateNextBuilding_def Utils_random_expand addBuilding_expand
      nextGap_def nextWidth_def nextY_def bld_def r1 shift3 Let_def case_prod_beta cong: if_cong)
qed


lemma generateNextBuilding_obtain:
  obtains a pl h where "ObjectPool_get (buildingPool w) (mem w) = (a, pl, h)"
    and "generateNextBuilding w =
          w\<lparr>buildingPool := pl,
            mem := h\<lparr>objs := (objs h)(a := \<lparr>x = lastBuildingEnd w + nextGap w, y = nextY w,
                        width = nextWidth w,
                        height = canvasHeight w - nextY w + 200, active = True,
                        style = \<lfloor>randoms w 3 * 3\<rfloor>\<rparr>)\<rparr>,
            randoms := (\<lambda>n. randoms w (n + 4)),
            buildings := buildings w @ [a],
            lastBuildingEnd := lastBuildingEnd w + nextGap w + nextWidth w\<rparr>"
proof -
  obtain a pl h where g: "ObjectPool_get (buildingPool w) (mem w) = (a, pl, h)"
    by (cases "ObjectPool_get (buildingPool w) (mem w)") auto
  show ?thesis
    by (rule that [OF g]) (simp add: generateNextBuilding_expand g)
qed

lemma settings_generateNextBuilding [simp]:
  "settings (generateNextBuilding w) = settings w"
proof -
  obtain a pl h where "generateNextBuilding w =
          w\<lparr>buildingPool := pl,
            mem := h\<lparr>objs := (objs h)(a := \<lparr>x = lastBuildingEnd w + nextGap w, y = nextY w,
                        width = nextWidth w,
                        height = canvasHeight w - nextY w + 200, active = True,
                        style = \<lfloor>randoms w 3 * 3\<rfloor>\<rparr>)\<rparr>,
            randoms := (\<lambda>n. randoms w (n + 4)),
            buildings := buildings w @ [a],
            lastBuildingEnd := lastBuildingEnd w + nextGap w + nextWidth w\<rparr>"
    by (rule generateNextBuilding_obtain)
  then show ?thesis by (simp add: settings_def)
qed

lemma settings_fields:
  assumes "settings w' = settings w"
  shows "canvasWidth w' = canvasWidth w"
    "canvasHeight w' = canvasHeight w"
    "groundY w' = groundY w"
    "scrollSpeed w' = scrollSpeed w"
    "baseSpeed w' = baseSpeed w"
    "maxSpeed w' = maxSpeed w"
    "speedIncreaseRate w' = speedIncreaseRate w"
    "worldOffset w' = worldOffset w"
    "distanceTraveled w' = distanceTraveled w"
    "difficulty w' = difficulty w"
    "minBuildingWidth w' = minBuildingWidth w"
    "maxBuildingWidth w' = maxBuildingWidth w"
    "minGap w' = minGap w"
    "maxGap w' = maxGap w"
    "heightVariation w' = heightVariation w"
proof -
  show "canvasWidth w' = canvasWidth w"
    using arg_cong [OF assms, of canvasWidth] by (simp add: settings_def)
  show "canvasHeight w' = canvasHeight w"
    using arg_cong [OF assms, of canvasHeight] by (simp add: settings_def)
  show "groundY w' = groundY w"
    using arg_cong [OF assms, of groundY] by (simp add: settings_def)
  show "scrollSpeed w' = scrollSpeed w"
    using arg_cong [OF assms, of scrollSpeed] by (simp add: settings_def)
  show "baseSpeed w' = baseSpeed w"
    using arg_cong [OF assms, of baseSpeed] by (simp add: settings_def)
  show "maxSpeed w' = maxSpeed w"
    using arg_cong [OF assms, of maxSpeed] by (simp add: settings_def)
  show "speedIncreaseRate w' = speedIncreaseRate w"
    using arg_cong [OF assms, of speedIncreaseRate] by (simp add: settings_def)
  show "worldOffset w' = worldOffset w"
    using arg_cong [OF assms, of worldOffset] by (simp add: settings_def)
  show "distanceTraveled w' = distanceTraveled w"
    using arg_cong [OF assms, of distanceTraveled] by (simp add: settings_def)
  show "difficulty w' = difficulty w"
    using arg_cong [OF assms, of difficulty] by (simp add: settings_def)
  show "minBuildingWidth w' = minBuildingWidth w"
    using arg_cong [OF assms, of minBuildingWidth] by (simp add: settings_def)
  show "maxBuildingWidth w' = maxBuildingWidth w"
    using arg_cong [OF assms, of maxBuildingWidth] by (simp add: settings_def)
  show "minGap w' = minGap w"
    using arg_cong [OF assms, of minGap] by (simp add: settings_def)
  show "maxGap w' = maxGap w"
    using arg_cong [OF assms, of maxGap] by (simp add: settings_def)
  show "heightVariation w' = heightVariation w"
    using arg_cong [OF assms, of heightVariation] by (simp add: settings_def)
qed

lemma config_ok_settings:
  assumes "settings w' = settings w"
  shows "config_ok w' = config_ok w"
  unfolding config_ok_def settings_fields [OF assms] ..

lemma nextGap_bounds:
  assumes "config_ok w" "0 \<le> randoms w 0" "randoms w 0 < 1" "0 \<le> difficulty w"
  shows "minGap w * min (difficulty w) 2 \<le> nextGap w"
    and "nextGap w \<le> maxGap w * min (difficulty w) 2"
proof -
  define m where "m = min (difficulty w) 2"
  define u where "u = randoms w 0"
  have m: "0 \<le> m" using assms(4) by (simp add: m_def)
  have c: "minGap w = 80" "maxGap w = 200" using assms(1) by (simp_all add: config_ok_def)
  have eq: "nextGap w = 80 * m + u * (120 * m)"
    unfolding nextGap_def c m_def [symmetric] u_def [symmetric] by (simp add: algebra_simps)
  have "0 \<le> u * (120 * m)" using assms(2) m by (simp add: u_def)
  then show "minGap w * min (difficulty w) 2 \<le> nextGap w"
    unfolding c m_def [symmetric] eq by linarith
  have "u * (120 * m) \<le> 1 * (120 * m)"
    using assms(3) m by (intro mult_right_mono) (auto simp: u_def)
  then show "nextGap w \<le> maxGap w * min (difficulty w) 2"
    unfolding c m_def [symmetric] eq by linarith
qed

lemma nextWidth_bounds:
  assumes "config_ok w" "0 \<le> randoms w 1" "randoms w 1 < 1"
  shows "120 \<le> nextWidth w" and "nextWidth w \<le> 500 \<or> difficulty w < 0"
proof -
  define r where "r = min (difficulty w * 20) 150"
  define lo where "lo = max (200 - r) 120"
  define hi where "hi = max (500 - r) 250"
  define u where "u = randoms w 1"
  have eq: "nextWidth w = u * (hi - lo) + lo"
    using assms(1) by (simp add: nextWidth_def config_ok_def r_def lo_def hi_def u_def)
  have le: "lo \<le> hi" and lo: "120 \<le> lo" unfolding lo_def hi_def by linarith+
  have "0 \<le> u * (hi - lo)" using assms(2) le by (simp add: u_def)
  then show "120 \<le> nextWidth w" using eq lo by linarith
  have "u * (hi - lo) \<le> 1 * (hi - lo)"
    using assms(3) le by (intro mult_right_mono) (auto simp: u_def)
  then have "nextWidth w \<le> hi" using eq by simp
  moreover have "hi \<le> 500 \<or> difficulty w < 0"
    unfolding hi_def r_def by (cases "difficulty w < 0") (simp_all add: max_def min_def)
  ultimately show "nextWidth w \<le> 500 \<or> difficulty w < 0" by linarith
qed

lemma nextY_bounds:
  "groundY w - 100 \<le> nextY w" "nextY w \<le> groundY w + 60"
proof -
  show "groundY w - 100 \<le> nextY w"
    unfolding nextY_def clamp_def by (rule max.cobounded1)
  have "groundY w - 100 \<le> groundY w + 60" by simp
  then show "nextY w \<le> groundY w + 60"
    unfolding nextY_def clamp_def by (intro max.boundedI min.cobounded1)
qed


lemma generateNextBuilding_effect:
  assumes "pool_ok w"
  shows "\<exists>a. a \<notin> set (buildings w)
    \<and> buildings (generateNextBuilding w) = buildings w @ [a]
    \<and> bld (generateNextBuilding w) a =
           \<lparr>x = lastBuildingEnd w + nextGap w, y = nextY w, width = nextWidth w,
            height = canvasHeight w - nextY w + 200, active = True,
            style = \<lfloor>randoms w 3 * 3\<rfloor>\<rparr>
    \<and> (\<forall>b. b \<noteq> a \<longrightarrow> bld (generateNextBuilding w) b = bld w b)
    \<and> lastBuildingEnd (generateNextBuilding w) = lastBuildingEnd w + nextGap w + nextWidth w
    \<and> randoms (generateNextBuilding w) = (\<lambda>n. randoms w (n + 4))
    \<and> pool_ok (generateNextBuilding w)"
proof -
  obtain a pl h where g: "ObjectPool_get (buildingPool w) (mem w) = (a, pl, h)"
    and e: "generateNextBuilding w =
          w\<lparr>buildingPool := pl,
            mem := h\<lparr>objs := (objs h)(a := \<lparr>x = lastBuildingEnd w + nextGap w, y = nextY w,
                        width = nextWidth w,
                        height = canvasHeight w - nextY w + 200, active = True,
                        style = \<lfloor>randoms w 3 * 3\<rfloor>\<rparr>)\<rparr>,
            randoms := (\<lambda>n. randoms w (n + 4)),
            buildings := buildings w @ [a],
            lastBuildingEnd := lastBuildingEnd w + nextGap w + nextWidth w\<rparr>"
    by (rule generateNextBuilding_obtain)
  have p: "distinct (activeObjs (buildingPool w))" "distinct (pool (buildingPool w))"
    "set (activeObjs (buildingPool w)) \<inter> set (pool (buildingPool w)) = {}"
    "\<forall>b \<in> set (activeObjs (buildingPool w)) \<union> set (pool (buildingPool w)). b < fresh (mem w)"
    "set (buildings w) \<subseteq> set (activeObjs (buildingPool w))" "distinct (buildings w)"
    using assms by (simp_all add: pool_ok_def)
  note q = ObjectPool_get_props [OF g p(1-4)]
  have a: "a \<notin> set (buildings w)" using q(1) p(5) by auto
  have 1: "buildings (generateNextBuilding w) = buildings w @ [a]" by (simp add: e)
  have 2: "bld (generateNextBuilding w) a =
           \<lparr>x = lastBuildingEnd w + nextGap w, y = nextY w, width = nextWidth w,
            height = canvasHeight w - nextY w + 200, active = True,
            style = \<lfloor>randoms w 3 * 3\<rfloor>\<rparr>"
    by (simp add: e bld_def)
  have 3: "\<forall>b. b \<noteq> a \<longrightarrow> bld (generateNextBuilding w) b = bld w b"
    using q(8) by (simp add: e bld_def)
  have 4: "lastBuildingEnd (generateNextBuilding w) = lastBuildingEnd w + nextGap w + nextWidth w"
    by (simp add: e)
  have 5: "randoms (generateNextBuilding w) = (\<lambda>n. randoms w (n + 4))"
    by (simp add: e)
  have 6: "pool_ok (generateNextBuilding w)"
    unfolding pool_ok_def
  proof (intro conjI)
    show "distinct (activeObjs (buildingPool (generateNextBuilding w)))"
      using q(1,2) p(1) by (simp add: e)
    show "distinct (pool (buildingPool (generateNextBuilding w)))"
      using q(3) by (simp add: e)
    show "set (activeObjs (buildingPool (generateNextBuilding w)))
            \<inter> set (pool (buildingPool (generateNextBuilding w))) = {}"
      using q(2,4,5) p(3) by (auto simp: e)
    show "\<forall>b \<in> set (activeObjs (buildingPool (generateNextBuilding w)))
            \<union> set (pool (buildingPool (generateNextBuilding w))).
            b < fresh (mem (generateNextBuilding w))"
    proof
      fix b
      assume "b \<in> set (activeObjs (buildingPool (generateNextBuilding w)))
            \<union> set (pool (buildingPool (generateNextBuilding w)))"
      then have "b = a \<or> b \<in> set (activeObjs (buildingPool w)) \<union> set (pool (buildingPool w))"
        using q(2,4) by (auto simp: e)
      then have "b < fresh h"
      proof
        assume "b = a" then show ?thesis using q(7) by simp
      next
        assume "b \<in> set (activeObjs (buildingPool w)) \<union> set (pool (buildingPool w))"
        then have "b < fresh (mem w)" using p(4) by blast
        then show ?thesis using q(6) by simp
      qed
      then show "b < fresh (mem (generateNextBuilding w))" by (simp add: e)
    qed
    show "set (buildings (generateNextBuilding w))
            \<subseteq> set (activeObjs (buildingPool (generateNextBuilding w)))"
      using q(2) p(5) by (auto simp: e)
    show "distinct (buildings (generateNextBuilding w))"
      using a p(6) by (simp add: e)
  qed
  show ?thesis using a 1 2 3 4 5 6 by blast
qed

lemma frontier_inv_generate:
  assumes "frontier_inv c w"
  shows "frontier_inv c (generateNextBuilding w)"
proof -
  let ?w = "generateNextBuilding w"
  have i: "pool_ok w" "config_ok w" "unit_interval (randoms w)" "1 \<le> difficulty w"
    "0 \<le> c" "c + 16 \<le> 80 * min (difficulty w) 2"
    "list_all (platform_ok c w) (buildings w)" "separated 16 w"
    using assms by (simp_all add: frontier_inv_def)
  obtain a where a: "a \<notin> set (buildings w)"
    and bs: "buildings ?w = buildings w @ [a]"
    and new: "bld ?w a =
           \<lparr>x = lastBuildingEnd w + nextGap w, y = nextY w, width = nextWidth w,
            height = canvasHeight w - nextY w + 200, active = True,
            style = \<lfloor>randoms w 3 * 3\<rfloor>\<rparr>"
    and old': "\<forall>b. b \<noteq> a \<longrightarrow> bld ?w b = bld w b"
    and fr: "lastBuildingEnd ?w = lastBuildingEnd w + nextGap w + nextWidth w"
    and rn: "randoms ?w = (\<lambda>n. randoms w (n + 4))"
    and pl: "pool_ok ?w"
    using generateNextBuilding_effect [OF i(1)] by blast
  have old: "bld ?w b = bld w b" if "b \<noteq> a" for b using old' that by simp
  have st: "settings ?w = settings w" by simp
  note f = settings_fields [OF st]
  have u: "0 \<le> randoms w 0" "randoms w 0 < 1" "0 \<le> randoms w 1" "randoms w 1 < 1"
    using i(3) by (simp_all add: unit_interval_def)
  have gap: "80 * min (difficulty w) 2 \<le> nextGap w"
    using nextGap_bounds(1) [OF i(2) u(1,2)] i(2,4) by (simp add: config_ok_def)
  have wd: "120 \<le> nextWidth w" by (rule nextWidth_bounds(1) [OF i(2) u(3,4)])
  have ny: "groundY w - 100 \<le> nextY w" "nextY w \<le> groundY w + 60"
    by (rule nextY_bounds)+
  have gap0: "0 \<le> nextGap w" using gap i(4) by (simp add: min_def split: if_splits)
  have oldb: "b \<noteq> a" if "b \<in> set (buildings w)" for b using that a by auto
  have pk_old: "platform_ok c ?w b" if b: "b \<in> set (buildings w)" for b
  proof -
    have "platform_ok c w b" using i(7) b by (simp add: list_all_iff)
    then show ?thesis
      using gap0 wd by (simp add: platform_ok_def old [OF oldb [OF b]] f fr)
  qed
  have pk_new: "platform_ok c ?w a"
    using i(5) ny wd by (simp add: platform_ok_def new f fr)
  have sep_old: "x (bld w b) + width (bld w b) + 16 \<le> x (bld ?w a)"
    if b: "b \<in> set (buildings w)" for b
  proof -
    have "platform_ok c w b" using i(7) b by (simp add: list_all_iff)
    then have "x (bld w b) + width (bld w b) \<le> lastBuildingEnd w + c"
      by (simp add: platform_ok_def)
    then show ?thesis using gap i(6) by (simp add: new)
  qed
  have sep: "separated 16 ?w"
  proof -
    have "sorted_wrt (\<lambda>p q. x (bld w p) + width (bld w p) + 16 \<le> x (bld w q)) (buildings w)"
      using i(8) by (simp add: separated_def)
    then have "sorted_wrt (\<lambda>p q. x (bld ?w p) + width (bld ?w p) + 16 \<le> x (bld ?w q)) (buildings w)"
      by (rule sorted_wrt_mono_rel [rotated]) (simp add: old oldb)
    then show ?thesis
      using sep_old by (simp add: separated_def bs sorted_wrt_append old oldb)
  qed
  show ?thesis
    unfolding frontier_inv_def
  proof (intro conjI)
    show "pool_ok ?w" by (rule pl)
    show "config_ok ?w" using i(2) by (simp add: config_ok_settings [OF st])
    show "unit_interval (randoms ?w)" using i(3) by (simp add: rn unit_interval_def)
    show "1 \<le> difficulty ?w" using i(4) by (simp add: f)
    show "0 \<le> c" by (rule i(5))
    show "c + 16 \<le> 80 * min (difficulty ?w) 2" using i(6) by (simp add: f)
    show "list_all (platform_ok c ?w) (buildings ?w)"
      using pk_old pk_new by (simp add: bs list_all_iff)
    show "separated 16 ?w" by (rule sep)
  qed
qed

section \<open>The generation loops and the scrolling loop\<close>

lemma frontier_inv_generator_ok: "frontier_inv c w \<Longrightarrow> generator_ok w"
  by (simp add: frontier_inv_def generator_ok_def)

lemma generator_ok_generate:
  assumes "generator_ok w"
  shows "generator_ok (generateNextBuilding w)"
proof -
  let ?w = "generateNextBuilding w"
  have i: "pool_ok w" "config_ok w" "unit_interval (randoms w)" "1 \<le> difficulty w"
    using assms by (simp_all add: generator_ok_def)
  have st: "settings ?w = settings w" by simp
  have e: "randoms ?w = (\<lambda>n. randoms w (n + 4))" "pool_ok ?w"
    using generateNextBuilding_effect [OF i(1)] by blast+
  show ?thesis
    unfolding generator_ok_def
  proof (intro conjI)
    show "pool_ok ?w" by (rule e(2))
    show "config_ok ?w" using i(2) by (simp add: config_ok_settings [OF st])
    show "unit_interval (randoms ?w)" using i(3) by (simp add: e(1) unit_interval_def)
    show "1 \<le> difficulty ?w" using i(4) by (simp add: settings_fields [OF st])
  qed
qed

lemma generate_advances:
  assumes "generator_ok w"
  shows "lastBuildingEnd w + 200 \<le> lastBuildingEnd (generateNextBuilding w)"
proof -
  have i: "pool_ok w" "config_ok w" "unit_interval (randoms w)" "1 \<le> difficulty w"
    using assms by (simp_all add: generator_ok_def)
  have u: "0 \<le> randoms w 0" "randoms w 0 < 1" "0 \<le> randoms w 1" "randoms w 1 < 1"
    using i(3) by (simp_all add: unit_interval_def)
  have "80 * min (difficulty w) 2 \<le> nextGap w"
    using nextGap_bounds(1) [OF i(2) u(1,2)] i(2,4) by (simp add: config_ok_def)
  then have gap: "80 \<le> nextGap w" using i(4) by (simp add: min_def split: if_splits)
  have wd: "120 \<le> nextWidth w" by (rule nextWidth_bounds(1) [OF i(2) u(3,4)])
  have "lastBuildingEnd (generateNextBuilding w) = lastBuildingEnd w + nextGap w + nextWidth w"
    using generateNextBuilding_effect [OF i(1)] by blast
  then show ?thesis using gap wd by simp
qed

lemma generateAheadLoop_inv:
  assumes "generateAheadLoop w = Some w'"
  shows "frontier_inv c w \<longrightarrow>
           frontier_inv c w' \<and> settings w' = settings w
           \<and> \<not> lastBuildingEnd w' - worldOffset w' < canvasWidth w' + 600"
proof (rule generateAheadLoop.raw_induct
    [where P = "\<lambda>w w'. frontier_inv c w \<longrightarrow>
           frontier_inv c w' \<and> settings w' = settings w
           \<and> \<not> lastBuildingEnd w' - worldOffset w' < canvasWidth w' + 600", OF _ assms])
  fix loop :: "world \<Rightarrow> world option" and v v'
  assume IH: "\<And>u u'. loop u = Some u' \<Longrightarrow> frontier_inv c u \<longrightarrow>
           frontier_inv c u' \<and> settings u' = settings u
           \<and> \<not> lastBuildingEnd u' - worldOffset u' < canvasWidth u' + 600"
    and step: "(if lastBuildingEnd v - worldOffset v < canvasWidth v + 600
                then loop (generateNextBuilding v) else Some v) = Some v'"
  show "frontier_inv c v \<longrightarrow>
           frontier_inv c v' \<and> settings v' = settings v
           \<and> \<not> lastBuildingEnd v' - worldOffset v' < canvasWidth v' + 600"
  proof (cases "lastBuildingEnd v - worldOffset v < canvasWidth v + 600")
    case True
    with step have r: "loop (generateNextBuilding v) = Some v'" by simp
    show ?thesis
    proof
      assume "frontier_inv c v"
      then have "frontier_inv c (generateNextBuilding v)" by (rule frontier_inv_generate)
      with IH [OF r] show "frontier_inv c v' \<and> settings v' = settings v
           \<and> \<not> lastBuildingEnd v' - worldOffset v' < canvasWidth v' + 600"
        by simp
    qed
  next
    case False
    with step have "v' = v" by simp
    with False show ?thesis by simp
  qed
qed

lemma generateInitialLoop_inv:
  assumes "generateInitialLoop w = Some w'"
  shows "frontier_inv c w \<longrightarrow>
           frontier_inv c w' \<and> settings w' = settings w
           \<and> \<not> lastBuildingEnd w' < canvasWidth w' + 800"
proof (rule generateInitialLoop.raw_induct
    [where P = "\<lambda>w w'. frontier_inv c w \<longrightarrow>
           frontier_inv c w' \<and> settings w' = settings w
           \<and> \<not> lastBuildingEnd w' < canvasWidth w' + 800", OF _ assms])
  fix loop :: "world \<Rightarrow> world option" and v v'
  assume IH: "\<And>u u'. loop u = Some u' \<Longrightarrow> frontier_inv c u \<longrightarrow>
           frontier_inv c u' \<and> settings u' = settings u
           \<and> \<not> lastBuildingEnd u' < canvasWidth u' + 800"
    and step: "(if lastBuildingEnd v < canvasWidth v + 800
                then loop (generateNextBuilding v) else Some v) = Some v'"
  show "frontier_inv c v \<longrightarrow>
           frontier_inv c v' \<and> settings v' = settings v
           \<and> \<not> lastBuildingEnd v' < canvasWidth v' + 800"
  proof (cases "lastBuildingEnd v < canvasWidth v + 800")
    case True
    with step have r: "loop (generateNextBuilding v) = Some v'" by simp
    show ?thesis
    proof
      assume "frontier_inv c v"
      then have "frontier_inv c (generateNextBuilding v)" by (rule frontier_inv_generate)
      with IH [OF r] show "frontier_inv c v' \<and> settings v' = settings v
           \<and> \<not> lastBuildingEnd v' < canvasWidth v' + 800"
        by simp
    qed
  next
    case False
    with step have "v' = v" by simp
    with False show ?thesis by simp
  qed
qed

lemma generateAheadLoop_terminates_aux:
  "generator_ok w \<Longrightarrow>
   canvasWidth w + 600 + worldOffset w - lastBuildingEnd w \<le> 200 * real n \<Longrightarrow>
   \<exists>w'. generateAheadLoop w = Some w'"
proof (induction n arbitrary: w)
  case 0
  then have "\<not> lastBuildingEnd w - worldOffset w < canvasWidth w + 600" by simp
  then show ?case by (subst generateAheadLoop.simps) simp
next
  case (Suc n)
  show ?case
  proof (cases "lastBuildingEnd w - worldOffset w < canvasWidth w + 600")
    case True
    let ?w = "generateNextBuilding w"
    have inv: "generator_ok ?w" using Suc.prems(1) by (rule generator_ok_generate)
    have adv: "lastBuildingEnd w + 200 \<le> lastBuildingEnd ?w"
      using Suc.prems(1) by (rule generate_advances)
    have st: "settings ?w = settings w" by simp
    note f = settings_fields [OF st]
    have "canvasWidth ?w + 600 + worldOffset ?w - lastBuildingEnd ?w \<le> 200 * real n"
      using Suc.prems(2) adv by (simp add: f)
    from Suc.IH [OF inv this] obtain w' where "generateAheadLoop ?w = Some w'" ..
    then have "generateAheadLoop w = Some w'"
      using True by (subst generateAheadLoop.simps) simp
    then show ?thesis ..
  next
    case False
    then show ?thesis by (subst generateAheadLoop.simps) simp
  qed
qed

lemma generateAheadLoop_terminates:
  assumes "generator_ok w"
  shows "\<exists>w'. generateAheadLoop w = Some w'"
proof -
  obtain n where "(canvasWidth w + 600 + worldOffset w - lastBuildingEnd w) / 200 < real n"
    using reals_Archimedean2 by blast
  then have "canvasWidth w + 600 + worldOffset w - lastBuildingEnd w \<le> 200 * real n"
    by (simp add: field_simps)
  with assms show ?thesis by (rule generateAheadLoop_terminates_aux)
qed

lemma generateInitialLoop_terminates_aux:
  "generator_ok w \<Longrightarrow>
   canvasWidth w + 800 - lastBuildingEnd w \<le> 200 * real n \<Longrightarrow>
   \<exists>w'. generateInitialLoop w = Some w'"
proof (induction n arbitrary: w)
  case 0
  then have "\<not> lastBuildingEnd w < canvasWidth w + 800" by simp
  then show ?case by (subst generateInitialLoop.simps) simp
next
  case (Suc n)
  show ?case
  proof (cases "lastBuildingEnd w < canvasWidth w + 800")
    case True
    let ?w = "generateNextBuilding w"
    have inv: "generator_ok ?w" using Suc.prems(1) by (rule generator_ok_generate)
    have adv: "lastBuildingEnd w + 200 \<le> lastBuildingEnd ?w"
      using Suc.prems(1) by (rule generate_advances)
    have st: "settings ?w = settings w" by simp
    note f = settings_fields [OF st]
    have "canvasWidth ?w + 800 - lastBuildingEnd ?w \<le> 200 * real n"
      using Suc.prems(2) adv by (simp add: f)
    from Suc.IH [OF inv this] obtain w' where "generateInitialLoop ?w = Some w'" ..
    then have "generateInitialLoop w = Some w'"
      using True by (subst generateInitialLoop.simps) simp
    then show ?thesis ..
  next
    case False
    then show ?thesis by (subst generateInitialLoop.simps) simp
  qed
qed

lemma generateInitialLoop_terminates:
  assumes "generator_ok w"
  shows "\<exists>w'. generateInitialLoop w = Some w'"
proof -
  obtain n where "(canvasWidth w + 800 - lastBuildingEnd w) / 200 < real n"
    using reals_Archimedean2 by blast
  then have "canvasWidth w + 800 - lastBuildingEnd w \<le> 200 * real n"
    by (simp add: field_simps)
  with assms show ?thesis by (rule generateInitialLoop_terminates_aux)
qed


lemma scrollBuilding_step:
  assumes "scrolled_from w0 s (Suc i) w"
  shows "scrolled_from w0 s i (scrollBuilding i s w)"
proof -
  define bs0 where "bs0 = buildings w0"
  define a where "a = bs0 ! i"
  define T where "T = take i bs0"
  define F where "F = filter (onScreen w0 s) (drop (Suc i) bs0)"
  have h: "pool_ok w" "Suc i \<le> length bs0" "distinct bs0"
    "buildings w = take (Suc i) bs0 @ F"
    "list_all (\<lambda>a. bld w a = bld w0 a) (take (Suc i) bs0)"
    "list_all (\<lambda>a. bld w a = (bld w0 a)\<lparr>x := x (bld w0 a) - s\<rparr>) F"
    "settings w = settings w0" "lastBuildingEnd w = lastBuildingEnd w0"
    "randoms w = randoms w0"
    using assms by (simp_all add: scrolled_from_def bs0_def F_def)
  have il: "i < length bs0" using h(2) by simp
  have tk: "take (Suc i) bs0 = T @ [a]"
    using il by (simp add: T_def a_def take_Suc_conv_app_nth)
  have dr: "drop i bs0 = a # drop (Suc i) bs0"
    using il by (simp add: a_def Cons_nth_drop_Suc)
  have bw: "buildings w = T @ a # F" using h(4) tk by simp
  have lT: "length T = i" using il by (simp add: T_def)
  have nth: "buildings w ! i = a" using bw lT by (simp add: nth_append)
  have tki: "take i (buildings w) = T" using bw lT by simp
  have dri: "drop (Suc i) (buildings w) = F" using bw lT by simp
  have "bs0 = T @ a # drop (Suc i) bs0"
    using dr by (metis T_def append_take_drop_id)
  then have "distinct (T @ a # drop (Suc i) bs0)" using h(3) by simp
  then have aT: "a \<notin> set T" and aF: "a \<notin> set F" and TF: "set T \<inter> set F = {}"
    by (auto simp: F_def)
  have neT: "t \<noteq> a" if "t \<in> set T" for t using that aT by auto
  have neF: "t \<noteq> a" if "t \<in> set F" for t using that aF by auto
  have dw: "distinct (buildings w)" using h(1) by (simp add: pool_ok_def)
  have ba: "bld w a = bld w0 a" using h(5) tk by simp
  have bT: "list_all (\<lambda>a. bld w a = bld w0 a) T" using h(5) tk by simp
  define b where "b = (bld w a)\<lparr>x := x (bld w a) - s\<rparr>"
  define w1 where "w1 = w\<lparr>mem := (mem w)\<lparr>objs := (objs (mem w))(a := b)\<rparr>\<rparr>"
  have b0: "b = (bld w0 a)\<lparr>x := x (bld w0 a) - s\<rparr>" by (simp add: b_def ba)
  have off: "x b + width b < - 50 \<longleftrightarrow> \<not> onScreen w0 s a"
    by (simp add: b0 onScreen_def)
  have w1a: "bld w1 a = b" by (simp add: w1_def bld_def)
  have w1o: "bld w1 t = bld w t" if "t \<noteq> a" for t using that by (simp add: w1_def bld_def)
  have sb: "scrollBuilding i s w =
     (if x b + width b < - 50
      then (case ObjectPool_release (buildingPool w1) a (mem w1) of
              (pl, h) \<Rightarrow> w1\<lparr>buildings := take i (buildings w1) @ drop (Suc i) (buildings w1),
                             buildingPool := pl, mem := h\<rparr>)
      else w1)"
    by (simp add: scrollBuilding_def Let_def nth b_def w1_def)
  show ?thesis
  proof (cases "onScreen w0 s a")
    case True
    then have e: "scrollBuilding i s w = w1" using sb off by simp
    have f: "filter (onScreen w0 s) (drop i bs0) = a # F" using True dr by (simp add: F_def)
    show ?thesis
      unfolding scrolled_from_def e bs0_def [symmetric] f T_def [symmetric]
    proof (intro conjI)
      show "pool_ok w1" using h(1) by (simp add: pool_ok_def w1_def)
      show "i \<le> length bs0" using il by simp
      show "distinct bs0" by (rule h(3))
      show "buildings w1 = T @ a # F" using bw by (simp add: w1_def)
      show "list_all (\<lambda>a. bld w1 a = bld w0 a) T"
        using bT by (simp add: list_all_iff w1o neT)
      show "list_all (\<lambda>a. bld w1 a = (bld w0 a)\<lparr>x := x (bld w0 a) - s\<rparr>) (a # F)"
        using h(6) by (simp add: list_all_iff w1o w1a b0 neF)
      show "settings w1 = settings w0" using h(7) by (simp add: w1_def settings_def)
      show "lastBuildingEnd w1 = lastBuildingEnd w0" using h(8) by (simp add: w1_def)
      show "randoms w1 = randoms w0" using h(9) by (simp add: w1_def)
    qed
  next
    case False
    have act: "a \<in> set (activeObjs (buildingPool w))"
      using h(1) bw by (auto simp: pool_ok_def)
    define pl where "pl = (buildingPool w)\<lparr>activeObjs := remove1 a (activeObjs (buildingPool w)),
                          pool := pool (buildingPool w) @ [a]\<rparr>"
    define w2 where "w2 = w1\<lparr>buildings := T @ F, buildingPool := pl, mem := resetFn a (mem w1)\<rparr>"
    have rel: "ObjectPool_release (buildingPool w1) a (mem w1) = (pl, resetFn a (mem w1))"
      using act by (simp add: ObjectPool_release_def w1_def pl_def)
    have bw1: "buildings w1 = buildings w" by (simp add: w1_def)
    have e: "scrollBuilding i s w = w2"
      using sb off False by (simp add: rel w2_def bw1 tki dri)
    have f: "filter (onScreen w0 s) (drop i bs0) = F" using False dr by (simp add: F_def)
    have w2o: "bld w2 t = bld w t" if "t \<noteq> a" for t
      using that by (simp add: w2_def w1_def bld_def resetFn_def)
    have p: "distinct (activeObjs (buildingPool w))" "distinct (pool (buildingPool w))"
      "set (activeObjs (buildingPool w)) \<inter> set (pool (buildingPool w)) = {}"
      "\<forall>b \<in> set (activeObjs (buildingPool w)) \<union> set (pool (buildingPool w)). b < fresh (mem w)"
      "set (buildings w) \<subseteq> set (activeObjs (buildingPool w))"
      using h(1) by (simp_all add: pool_ok_def)
    show ?thesis
      unfolding scrolled_from_def e bs0_def [symmetric] f T_def [symmetric]
    proof (intro conjI)
      show "pool_ok w2"
        unfolding pool_ok_def
      proof (intro conjI)
        show "distinct (activeObjs (buildingPool w2))" using p(1) by (simp add: w2_def pl_def)
        show "distinct (pool (buildingPool w2))" using p(2,3) act by (auto simp: w2_def pl_def)
        show "set (activeObjs (buildingPool w2)) \<inter> set (pool (buildingPool w2)) = {}"
          using p(1,3) by (auto simp: w2_def pl_def)
        show "\<forall>b \<in> set (activeObjs (buildingPool w2)) \<union> set (pool (buildingPool w2)).
                b < fresh (mem w2)"
          using p(4) act set_remove1_subset [of a "activeObjs (buildingPool w)"]
          by (auto simp: w2_def pl_def w1_def resetFn_def)
        show "set (buildings w2) \<subseteq> set (activeObjs (buildingPool w2))"
          using p(1,5) bw aT aF by (auto simp: w2_def pl_def)
        show "distinct (buildings w2)" using dw bw by (simp add: w2_def)
      qed
      show "i \<le> length bs0" using il by simp
      show "distinct bs0" by (rule h(3))
      show "buildings w2 = T @ F" by (simp add: w2_def)
      show "list_all (\<lambda>a. bld w2 a = bld w0 a) T"
        using bT by (simp add: list_all_iff w2o neT)
      show "list_all (\<lambda>a. bld w2 a = (bld w0 a)\<lparr>x := x (bld w0 a) - s\<rparr>) F"
        using h(6) by (simp add: list_all_iff w2o neF)
      show "settings w2 = settings w0" using h(7) by (simp add: w2_def w1_def settings_def)
      show "lastBuildingEnd w2 = lastBuildingEnd w0" using h(8) by (simp add: w2_def w1_def)
      show "randoms w2 = randoms w0" using h(9) by (simp add: w2_def w1_def)
    qed
  qed
qed

lemma scrollBuildings_steps:
  "scrolled_from w0 s i w \<Longrightarrow> scrolled_from w0 s 0 (scrollBuildings i s w)"
proof (induction i arbitrary: w)
  case 0
  then show ?case by simp
next
  case (Suc i)
  then show ?case by (simp add: scrollBuilding_step)
qed

lemma scrollBuildings_effect:
  assumes "pool_ok w"
  shows "scrolled_from w s 0 (scrollBuildings (length (buildings w)) s w)"
proof -
  have "scrolled_from w s (length (buildings w)) w"
    using assms by (simp add: scrolled_from_def pool_ok_def list_all_iff)
  then show ?thesis by (rule scrollBuildings_steps)
qed


lemma generateAheadLoop_generator_ok:
  assumes "generateAheadLoop w = Some w'"
  shows "(generator_ok w \<longrightarrow> generator_ok w') \<and> settings w' = settings w"
proof (rule generateAheadLoop.raw_induct
    [where P = "\<lambda>w w'. (generator_ok w \<longrightarrow> generator_ok w') \<and> settings w' = settings w",
      OF _ assms])
  fix loop :: "world \<Rightarrow> world option" and v v'
  assume IH: "\<And>u u'. loop u = Some u' \<Longrightarrow>
                (generator_ok u \<longrightarrow> generator_ok u') \<and> settings u' = settings u"
    and step: "(if lastBuildingEnd v - worldOffset v < canvasWidth v + 600
                then loop (generateNextBuilding v) else Some v) = Some v'"
  show "(generator_ok v \<longrightarrow> generator_ok v') \<and> settings v' = settings v"
  proof (cases "lastBuildingEnd v - worldOffset v < canvasWidth v + 600")
    case True
    with step have r: "loop (generateNextBuilding v) = Some v'" by simp
    from IH [OF r] show ?thesis by (simp add: generator_ok_generate)
  next
    case False
    with step have "v' = v" by simp
    then show ?thesis by simp
  qed
qed

lemma generateInitialLoop_generator_ok:
  assumes "generateInitialLoop w = Some w'"
  shows "(generator_ok w \<longrightarrow> generator_ok w') \<and> settings w' = settings w"
proof (rule generateInitialLoop.raw_induct
    [where P = "\<lambda>w w'. (generator_ok w \<longrightarrow> generator_ok w') \<and> settings w' = settings w",
      OF _ assms])
  fix loop :: "world \<Rightarrow> world option" and v v'
  assume IH: "\<And>u u'. loop u = Some u' \<Longrightarrow>
                (generator_ok u \<longrightarrow> generator_ok u') \<and> settings u' = settings u"
    and step: "(if lastBuildingEnd v < canvasWidth v + 800
                then loop (generateNextBuilding v) else Some v) = Some v'"
  show "(generator_ok v \<longrightarrow> generator_ok v') \<and> settings v' = settings v"
  proof (cases "lastBuildingEnd v < canvasWidth v + 800")
    case True
    with step have r: "loop (generateNextBuilding v) = Some v'" by simp
    from IH [OF r] show ?thesis by (simp add: generator_ok_generate)
  next
    case False
    with step have "v' = v" by simp
    then show ?thesis by simp
  qed
qed

lemma World_update_expand:
  "World_update w dt =
     (case generateAheadLoop
             (scrollBuildings (length (buildings w)) (scrollAmountOf w dt) (advanced w dt)) of
        None \<Rightarrow> None
      | Some w5 \<Rightarrow> Some (w5\<lparr>lastBuildingEnd := lastBuildingEnd w5 - scrollAmountOf w dt\<rparr>))"
  by (simp add: World_update_def advanced_def scrollAmountOf_def Let_def cong: option.case_cong)

lemma settings_scrollBuilding [simp]: "settings (scrollBuilding i s w) = settings w"
  by (simp add: scrollBuilding_def Let_def settings_def case_prod_beta)

lemma settings_scrollBuildings [simp]: "settings (scrollBuildings i s w) = settings w"
  by (induction i arbitrary: w) simp_all

section \<open>One update preserves the invariant\<close>

lemma advanced_fields:
  "buildings (advanced w dt) = buildings w" "mem (advanced w dt) = mem w"
  "buildingPool (advanced w dt) = buildingPool w" "randoms (advanced w dt) = randoms w"
  "lastBuildingEnd (advanced w dt) = lastBuildingEnd w"
  "bld (advanced w dt) a = bld w a"
  "canvasWidth (advanced w dt) = canvasWidth w" "canvasHeight (advanced w dt) = canvasHeight w"
  "groundY (advanced w dt) = groundY w"
  "pool_ok (advanced w dt) = pool_ok w" "config_ok (advanced w dt) = config_ok w"
  "distanceTraveled (advanced w dt) = distanceTraveled w + scrollAmountOf w dt"
  "worldOffset (advanced w dt) = worldOffset w + scrollAmountOf w dt"
  "difficulty (advanced w dt) = 1 + (distanceTraveled w + scrollAmountOf w dt) / 3000"
  "scrollSpeed (advanced w dt) =
     min (maxSpeed w) (baseSpeed w + (distanceTraveled w + scrollAmountOf w dt) * speedIncreaseRate w)"
  by (simp_all add: advanced_def bld_def pool_ok_def config_ok_def)

lemma scroll_bounds:
  assumes "0 \<le> dt" "dt \<le> 100" "0 \<le> scrollSpeed w"
  shows "0 \<le> scrollAmountOf w dt" "scrollAmountOf w dt \<le> 100 / 16.67 * scrollSpeed w"
proof -
  have "0 \<le> dt / 16.67" using assms(1) by simp
  then show "0 \<le> scrollAmountOf w dt"
    unfolding scrollAmountOf_def using assms(3) by (rule mult_nonneg_nonneg [rotated])
  have "dt / 16.67 \<le> 100 / 16.67" using assms(2) by (simp add: divide_right_mono)
  then have "scrollSpeed w * (dt / 16.67) \<le> scrollSpeed w * (100 / 16.67)"
    using assms(3) by (rule mult_left_mono)
  then show "scrollAmountOf w dt \<le> 100 / 16.67 * scrollSpeed w"
    by (simp add: scrollAmountOf_def mult.commute)
qed

lemma slack_fits:
  fixes D v d :: real
  assumes "0 \<le> D" "v = min 14 (6 + D * 0.0003)" "d = 1 + D / 3000"
  shows "100 / 16.67 * v + 16 \<le> 80 * min d 2"
proof (cases "D \<le> 3000")
  case True
  then have "v \<le> 6.9" using assms(2) by simp
  then have "100 / 16.67 * v + 16 \<le> 80" by simp
  moreover have "1 \<le> min d 2" using assms(1,3) by simp
  ultimately show ?thesis by linarith
next
  case False
  then have "min d 2 = 2" using assms(3) by simp
  moreover have "v \<le> 14" using assms(2) by simp
  ultimately show ?thesis by simp
qed

lemma frontier_inv_scroll:
  assumes inv: "frontier_inv c w" and s: "0 \<le> s" "s \<le> c"
    and sc: "scrolled_from w s 0 w4"
  shows "frontier_inv (c - s) w4"
proof -
  have i: "pool_ok w" "config_ok w" "unit_interval (randoms w)" "1 \<le> difficulty w"
    "0 \<le> c" "c + 16 \<le> 80 * min (difficulty w) 2"
    "list_all (platform_ok c w) (buildings w)" "separated 16 w"
    using inv by (simp_all add: frontier_inv_def)
  have h: "pool_ok w4"
    "buildings w4 = filter (onScreen w s) (buildings w)"
    "list_all (\<lambda>a. bld w4 a = (bld w a)\<lparr>x := x (bld w a) - s\<rparr>) (filter (onScreen w s) (buildings w))"
    "settings w4 = settings w" "lastBuildingEnd w4 = lastBuildingEnd w"
    "randoms w4 = randoms w"
    using sc by (simp_all add: scrolled_from_def)
  note f = settings_fields [OF h(4)]
  have mv: "bld w4 a = (bld w a)\<lparr>x := x (bld w a) - s\<rparr>" if "a \<in> set (buildings w4)" for a
    using h(3) that by (simp add: h(2) list_all_iff)
  have sub: "a \<in> set (buildings w)" if "a \<in> set (buildings w4)" for a
    using that by (simp add: h(2))
  have pk: "platform_ok (c - s) w4 a" if a: "a \<in> set (buildings w4)" for a
  proof -
    have "platform_ok c w a" using i(7) sub [OF a] by (simp add: list_all_iff)
    then show ?thesis by (simp add: platform_ok_def mv [OF a] f h(5))
  qed
  have "sorted_wrt (\<lambda>p q. x (bld w p) + width (bld w p) + 16 \<le> x (bld w q)) (buildings w4)"
    using i(8) unfolding separated_def h(2) by (rule sorted_wrt_filter)
  then have sep: "separated 16 w4"
    unfolding separated_def by (rule sorted_wrt_mono_rel [rotated]) (simp add: mv)
  show ?thesis
    unfolding frontier_inv_def
  proof (intro conjI)
    show "pool_ok w4" by (rule h(1))
    show "config_ok w4" using i(2) by (simp add: config_ok_settings [OF h(4)])
    show "unit_interval (randoms w4)" using i(3) by (simp add: h(6))
    show "1 \<le> difficulty w4" using i(4) by (simp add: f)
    show "0 \<le> c - s" using s(2) by simp
    show "c - s + 16 \<le> 80 * min (difficulty w4) 2" using i(6) s(1) by (simp add: f)
    show "list_all (platform_ok (c - s) w4) (buildings w4)" using pk by (simp add: list_all_iff)
    show "separated 16 w4" by (rule sep)
  qed
qed

lemma frontier_inv_retreat:
  assumes inv: "frontier_inv c w" and c: "c + s \<le> c'" "c' + 16 \<le> 80 * min (difficulty w) 2"
    "0 \<le> c + s"
  shows "frontier_inv c' (w\<lparr>lastBuildingEnd := lastBuildingEnd w - s\<rparr>)"
proof -
  let ?w = "w\<lparr>lastBuildingEnd := lastBuildingEnd w - s\<rparr>"
  have i: "pool_ok w" "config_ok w" "unit_interval (randoms w)" "1 \<le> difficulty w"
    "0 \<le> c" "list_all (platform_ok c w) (buildings w)" "separated 16 w"
    using inv by (simp_all add: frontier_inv_def)
  have b: "bld ?w a = bld w a" for a by (simp add: bld_def)
  have pk: "platform_ok c' ?w a" if "platform_ok c w a" for a
    using that c(1) by (simp add: platform_ok_def b)
  show ?thesis
    unfolding frontier_inv_def
  proof (intro conjI)
    show "pool_ok ?w" using i(1) by (simp add: pool_ok_def)
    show "config_ok ?w" using i(2) by (simp add: config_ok_def)
    show "unit_interval (randoms ?w)" using i(3) by simp
    show "1 \<le> difficulty ?w" using i(4) by simp
    show "0 \<le> c'" using c(1,3) by simp
    show "c' + 16 \<le> 80 * min (difficulty ?w) 2" using c(2) by simp
    show "list_all (platform_ok c' ?w) (buildings ?w)" using i(6) pk by (simp add: list_all_iff)
    show "separated 16 ?w" using i(7) by (simp add: separated_def b)
  qed
qed


lemma world_inv_facts:
  assumes "world_inv w"
  shows "frontier_inv (100 / 16.67 * scrollSpeed w) w" "0 \<le> distanceTraveled w"
    "scrollSpeed w = min 14 (6 + distanceTraveled w * 0.0003)"
    "difficulty w = 1 + distanceTraveled w / 3000"
    "6 \<le> scrollSpeed w" "scrollSpeed w \<le> 14" "config_ok w" "pool_ok w" "generator_ok w"
proof -
  show 1: "frontier_inv (100 / 16.67 * scrollSpeed w) w" and 2: "0 \<le> distanceTraveled w"
    and 3: "scrollSpeed w = min 14 (6 + distanceTraveled w * 0.0003)"
    and "difficulty w = 1 + distanceTraveled w / 3000"
    using assms unfolding world_inv_def by blast+
  show "6 \<le> scrollSpeed w" "scrollSpeed w \<le> 14" using 2 3 by simp_all
  show "config_ok w" "pool_ok w" using 1 by (simp_all add: frontier_inv_def)
  show "generator_ok w" using 1 by (rule frontier_inv_generator_ok)
qed

lemma world_inv_advanced:
  assumes inv: "world_inv w" and dt: "0 \<le> dt" "dt \<le> 100"
  shows "frontier_inv (100 / 16.67 * scrollSpeed w) (advanced w dt)"
    and "0 \<le> distanceTraveled (advanced w dt)"
    and "scrollSpeed (advanced w dt) = min 14 (6 + distanceTraveled (advanced w dt) * 0.0003)"
    and "difficulty (advanced w dt) = 1 + distanceTraveled (advanced w dt) / 3000"
    and "scrollSpeed w \<le> scrollSpeed (advanced w dt)"
proof -
  note i = world_inv_facts [OF inv]
  have s: "0 \<le> scrollAmountOf w dt"
    using scroll_bounds(1) [OF dt] i(5) by simp
  have c: "baseSpeed w = 6" "maxSpeed w = 14" "speedIncreaseRate w = 0.0003"
    using i(7) by (simp_all add: config_ok_def)
  show D: "0 \<le> distanceTraveled (advanced w dt)" using i(2) s by (simp add: advanced_fields)
  show v: "scrollSpeed (advanced w dt) = min 14 (6 + distanceTraveled (advanced w dt) * 0.0003)"
    by (simp add: advanced_fields c)
  show d: "difficulty (advanced w dt) = 1 + distanceTraveled (advanced w dt) / 3000"
    by (simp add: advanced_fields)
  show "scrollSpeed w \<le> scrollSpeed (advanced w dt)"
    using s unfolding v i(3) by (simp add: advanced_fields min_def)
  have j: "unit_interval (randoms w)" "1 \<le> difficulty w"
    "0 \<le> 100 / 16.67 * scrollSpeed w"
    "list_all (platform_ok (100 / 16.67 * scrollSpeed w) w) (buildings w)" "separated 16 w"
    using i(1) by (simp_all add: frontier_inv_def)
  have le: "difficulty w \<le> difficulty (advanced w dt)"
    using s by (simp add: advanced_fields i(4))
  have "100 / 16.67 * scrollSpeed w + 16 \<le> 80 * min (difficulty w) 2"
    using i(1) by (simp add: frontier_inv_def)
  also have "\<dots> \<le> 80 * min (difficulty (advanced w dt)) 2" using le by simp
  finally have fit: "100 / 16.67 * scrollSpeed w + 16 \<le> 80 * min (difficulty (advanced w dt)) 2" .
  show "frontier_inv (100 / 16.67 * scrollSpeed w) (advanced w dt)"
    unfolding frontier_inv_def
  proof (intro conjI)
    show "pool_ok (advanced w dt)" using i(8) by (simp add: advanced_fields)
    show "config_ok (advanced w dt)" using i(7) by (simp add: advanced_fields)
    show "unit_interval (randoms (advanced w dt))" using j(1) by (simp add: advanced_fields)
    show "1 \<le> difficulty (advanced w dt)" using j(2) le by simp
    show "0 \<le> 100 / 16.67 * scrollSpeed w" by (rule j(3))
    show "100 / 16.67 * scrollSpeed w + 16 \<le> 80 * min (difficulty (advanced w dt)) 2"
      by (rule fit)
    show "list_all (platform_ok (100 / 16.67 * scrollSpeed w) (advanced w dt))
            (buildings (advanced w dt))"
      using j(4) by (simp add: list_all_iff platform_ok_def advanced_fields)
    show "separated 16 (advanced w dt)" using j(5) by (simp add: separated_def advanced_fields)
  qed
qed

lemma world_inv_update:
  assumes inv: "world_inv w" and dt: "0 \<le> dt" "dt \<le> 100"
    and upd: "World_update w dt = Some w'"
  shows "world_inv w'"
proof -
  define s where "s = scrollAmountOf w dt"
  define c where "c = 100 / 16.67 * scrollSpeed w"
  define w3 where "w3 = advanced w dt"
  define w4 where "w4 = scrollBuildings (length (buildings w3)) s w3"
  note i = world_inv_facts [OF inv]
  note a = world_inv_advanced [OF inv dt, folded w3_def c_def]
  have sb: "0 \<le> s" "s \<le> c"
    using scroll_bounds [OF dt, of w] i(5) by (simp_all add: s_def c_def)
  have "pool_ok w3" using a(1) by (simp add: frontier_inv_def)
  then have sc: "scrolled_from w3 s 0 w4" unfolding w4_def by (rule scrollBuildings_effect)
  have f4: "frontier_inv (c - s) w4" by (rule frontier_inv_scroll [OF a(1) sb sc])
  have st4: "settings w4 = settings w3" by (simp add: w4_def)
  obtain w5 where l: "generateAheadLoop w4 = Some w5"
    and w': "w' = w5\<lparr>lastBuildingEnd := lastBuildingEnd w5 - s\<rparr>"
    using upd
    by (auto simp: World_update_expand w4_def w3_def s_def advanced_fields split: option.splits)
  have f5: "frontier_inv (c - s) w5" and st5: "settings w5 = settings w4"
    using generateAheadLoop_inv [OF l, of "c - s"] f4 by simp_all
  have st: "settings w5 = settings w3" using st5 st4 by simp
  note g = settings_fields [OF st]
  have fit: "100 / 16.67 * scrollSpeed w3 + 16 \<le> 80 * min (difficulty w3) 2"
    by (rule slack_fits [OF a(2,3,4)])
  have cle: "c \<le> 100 / 16.67 * scrollSpeed w3" using a(5) by (simp add: c_def)
  have "frontier_inv (100 / 16.67 * scrollSpeed w3) w'"
    unfolding w'
  proof (rule frontier_inv_retreat [OF f5])
    show "c - s + s \<le> 100 / 16.67 * scrollSpeed w3" using cle by simp
    show "100 / 16.67 * scrollSpeed w3 + 16 \<le> 80 * min (difficulty w5) 2"
      using fit by (simp add: g)
    show "0 \<le> c - s + s" using sb by simp
  qed
  then show ?thesis
    using a(2,3,4) by (simp add: world_inv_def w' g)
qed

lemma World_update_terminates:
  assumes ok: "generator_ok w" and s: "0 \<le> scrollAmountOf w dt" "0 \<le> distanceTraveled w"
  shows "\<exists>w'. World_update w dt = Some w'"
proof -
  define w3 where "w3 = advanced w dt"
  define w4 where "w4 = scrollBuildings (length (buildings w)) (scrollAmountOf w dt) w3"
  have p: "pool_ok w" "config_ok w" "unit_interval (randoms w)"
    using ok by (simp_all add: generator_ok_def)
  have "pool_ok w3" using p(1) by (simp add: w3_def advanced_fields)
  then have "scrolled_from w3 (scrollAmountOf w dt) 0
               (scrollBuildings (length (buildings w3)) (scrollAmountOf w dt) w3)"
    by (rule scrollBuildings_effect)
  then have sc: "scrolled_from w3 (scrollAmountOf w dt) 0 w4"
    by (simp add: w4_def w3_def advanced_fields)
  then have h: "pool_ok w4" "settings w4 = settings w3" "randoms w4 = randoms w3"
    by (simp_all add: scrolled_from_def)
  have "generator_ok w4"
    unfolding generator_ok_def
  proof (intro conjI)
    show "pool_ok w4" by (rule h(1))
    show "config_ok w4" using p(2) by (simp add: config_ok_settings [OF h(2)] w3_def advanced_fields)
    show "unit_interval (randoms w4)" using p(3) by (simp add: h(3) w3_def advanced_fields)
    show "1 \<le> difficulty w4"
      using s by (simp add: settings_fields [OF h(2)] w3_def advanced_fields)
  qed
  then obtain w5 where "generateAheadLoop w4 = Some w5"
    using generateAheadLoop_terminates by blast
  then show ?thesis by (simp add: World_update_expand w4_def w3_def)
qed

section \<open>Construction and the first platform\<close>

lemma pool_ok_iff:
  "pool_ok w \<longleftrightarrow>
     pool_wf (buildingPool w) (mem w)
     \<and> set (buildings w) \<subseteq> set (activeObjs (buildingPool w)) \<and> distinct (buildings w)"
  by (auto simp: pool_ok_def pool_wf_def)

lemma addBuilding_effect:
  assumes "pool_ok w"
  shows "\<exists>a. a \<notin> set (buildings w)
    \<and> buildings (addBuilding w bx by' bw) = buildings w @ [a]
    \<and> bld (addBuilding w bx by' bw) a =
           \<lparr>x = bx, y = by', width = bw, height = canvasHeight w - by' + 200, active = True,
            style = \<lfloor>randoms w 0 * 3\<rfloor>\<rparr>
    \<and> (\<forall>b. b \<noteq> a \<longrightarrow> bld (addBuilding w bx by' bw) b = bld w b)
    \<and> lastBuildingEnd (addBuilding w bx by' bw) = lastBuildingEnd w
    \<and> randoms (addBuilding w bx by' bw) = (\<lambda>n. randoms w (Suc n))
    \<and> settings (addBuilding w bx by' bw) = settings w
    \<and> pool_ok (addBuilding w bx by' bw)"
proof -
  let ?w = "addBuilding w bx by' bw"
  obtain a pl h where g: "ObjectPool_get (buildingPool w) (mem w) = (a, pl, h)"
    by (cases "ObjectPool_get (buildingPool w) (mem w)") auto
  have e: "?w = w\<lparr>buildingPool := pl,
            mem := h\<lparr>objs := (objs h)(a := \<lparr>x = bx, y = by', width = bw,
                        height = canvasHeight w - by' + 200, active = True,
                        style = \<lfloor>randoms w 0 * 3\<rfloor>\<rparr>)\<rparr>,
            randoms := (\<lambda>n. randoms w (Suc n)),
            buildings := buildings w @ [a]\<rparr>"
    by (simp add: addBuilding_expand g)
  have p: "distinct (activeObjs (buildingPool w))" "distinct (pool (buildingPool w))"
    "set (activeObjs (buildingPool w)) \<inter> set (pool (buildingPool w)) = {}"
    "\<forall>b \<in> set (activeObjs (buildingPool w)) \<union> set (pool (buildingPool w)). b < fresh (mem w)"
    "set (buildings w) \<subseteq> set (activeObjs (buildingPool w))" "distinct (buildings w)"
    using assms by (simp_all add: pool_ok_def)
  note q = ObjectPool_get_props [OF g p(1-4)]
  have a: "a \<notin> set (buildings w)" using q(1) p(5) by auto
  have 1: "buildings ?w = buildings w @ [a]" by (simp add: e)
  have 2: "bld ?w a = \<lparr>x = bx, y = by', width = bw, height = canvasHeight w - by' + 200,
            active = True, style = \<lfloor>randoms w 0 * 3\<rfloor>\<rparr>"
    by (simp add: e bld_def)
  have 3: "\<forall>b. b \<noteq> a \<longrightarrow> bld ?w b = bld w b"
    using q(8) by (simp add: e bld_def)
  have 4: "lastBuildingEnd ?w = lastBuildingEnd w" by (simp add: e)
  have 5: "randoms ?w = (\<lambda>n. randoms w (Suc n))" by (simp add: e)
  have 7: "settings ?w = settings w" by (simp add: e settings_def)
  have 6: "pool_ok ?w"
    unfolding pool_ok_def
  proof (intro conjI)
    show "distinct (activeObjs (buildingPool ?w))"
      using q(1,2) p(1) by (simp add: e)
    show "distinct (pool (buildingPool ?w))"
      using q(3) by (simp add: e)
    show "set (activeObjs (buildingPool ?w)) \<inter> set (pool (buildingPool ?w)) = {}"
      using q(2,4,5) p(3) by (auto simp: e)
    show "\<forall>b \<in> set (activeObjs (buildingPool ?w)) \<union> set (pool (buildingPool ?w)).
            b < fresh (mem ?w)"
    proof
      fix b
      assume "b \<in> set (activeObjs (buildingPool ?w)) \<union> set (pool (buildingPool ?w))"
      then have "b = a \<or> b \<in> set (activeObjs (buildingPool w)) \<union> set (pool (buildingPool w))"
        using q(2,4) by (auto simp: e)
      then have "b < fresh h"
      proof
        assume "b = a" then show ?thesis using q(7) by simp
      next
        assume "b \<in> set (activeObjs (buildingPool w)) \<union> set (pool (buildingPool w))"
        then have "b < fresh (mem w)" using p(4) by blast
        then show ?thesis using q(6) by simp
      qed
      then show "b < fresh (mem ?w)" by (simp add: e)
    qed
    show "set (buildings ?w) \<subseteq> set (activeObjs (buildingPool ?w))"
      using q(2) p(5) by (auto simp: e)
    show "distinct (buildings ?w)"
      using a p(6) by (simp add: e)
  qed
  show ?thesis using a 1 2 3 4 5 6 7 by blast
qed

lemma release_wf:
  assumes "pool_wf pl h"
  shows "pool_wf (fst (ObjectPool_release pl a h)) (snd (ObjectPool_release pl a h))"
proof (cases "a \<in> set (activeObjs pl)")
  case True
  have p: "distinct (activeObjs pl)" "distinct (pool pl)"
    "set (activeObjs pl) \<inter> set (pool pl) = {}"
    "\<forall>b \<in> set (activeObjs pl) \<union> set (pool pl). b < fresh h"
    using assms by (simp_all add: pool_wf_def)
  have e: "ObjectPool_release pl a h =
             (pl\<lparr>activeObjs := remove1 a (activeObjs pl), pool := pool pl @ [a]\<rparr>, resetFn a h)"
    using True by (simp add: ObjectPool_release_def)
  show ?thesis
    unfolding e fst_conv snd_conv pool_wf_def
  proof (intro conjI)
    show "distinct (activeObjs (pl\<lparr>activeObjs := remove1 a (activeObjs pl), pool := pool pl @ [a]\<rparr>))"
      using p(1) by simp
    show "distinct (pool (pl\<lparr>activeObjs := remove1 a (activeObjs pl), pool := pool pl @ [a]\<rparr>))"
      using p(2,3) True by auto
    show "set (activeObjs (pl\<lparr>activeObjs := remove1 a (activeObjs pl), pool := pool pl @ [a]\<rparr>))
          \<inter> set (pool (pl\<lparr>activeObjs := remove1 a (activeObjs pl), pool := pool pl @ [a]\<rparr>)) = {}"
      using p(1,3) by auto
    show "\<forall>b \<in> set (activeObjs (pl\<lparr>activeObjs := remove1 a (activeObjs pl), pool := pool pl @ [a]\<rparr>))
          \<union> set (pool (pl\<lparr>activeObjs := remove1 a (activeObjs pl), pool := pool pl @ [a]\<rparr>)).
            b < fresh (resetFn a h)"
      using p(4) True set_remove1_subset [of a "activeObjs pl"]
      by (auto simp: resetFn_def)
  qed
next
  case False
  then show ?thesis using assms by (simp add: ObjectPool_release_def)
qed

lemma release_fold_wf:
  "pool_wf (fst ph) (snd ph) \<Longrightarrow>
   pool_wf (fst (fold (\<lambda>b (pl, h). ObjectPool_release pl b h) bs ph))
           (snd (fold (\<lambda>b (pl, h). ObjectPool_release pl b h) bs ph))"
proof (induction bs arbitrary: ph)
  case Nil
  then show ?case by simp
next
  case (Cons b bs)
  have "pool_wf (fst (ObjectPool_release (fst ph) b (snd ph)))
                (snd (ObjectPool_release (fst ph) b (snd ph)))"
    using Cons.prems by (rule release_wf)
  then show ?case
    using Cons.IH [of "ObjectPool_release (fst ph) b (snd ph)"]
    by (simp add: case_prod_beta)
qed

lemma releaseAllBuildings_effect:
  assumes "pool_ok w"
  shows "pool_ok ((releaseAllBuildings w)\<lparr>buildings := []\<rparr>)"
    and "settings ((releaseAllBuildings w)\<lparr>buildings := []\<rparr>) = settings w"
    and "randoms ((releaseAllBuildings w)\<lparr>buildings := []\<rparr>) = randoms w"
proof -
  have "pool_wf (buildingPool w) (mem w)" using assms by (simp add: pool_ok_iff)
  then have "pool_wf (fst (buildingPool w, mem w)) (snd (buildingPool w, mem w))" by simp
  then show "pool_ok ((releaseAllBuildings w)\<lparr>buildings := []\<rparr>)"
    using release_fold_wf [of "(buildingPool w, mem w)" "buildings w"]
    by (simp add: pool_ok_iff releaseAllBuildings_def case_prod_beta)
  show "settings ((releaseAllBuildings w)\<lparr>buildings := []\<rparr>) = settings w"
    by (simp add: settings_def releaseAllBuildings_def case_prod_beta)
  show "randoms ((releaseAllBuildings w)\<lparr>buildings := []\<rparr>) = randoms w"
    by (simp add: releaseAllBuildings_def case_prod_beta)
qed


lemma prepopulate_effect:
  "pool (fst (prepopulate n pl h)) = pool pl @ [fresh h ..< fresh h + n]
   \<and> activeObjs (fst (prepopulate n pl h)) = activeObjs pl
   \<and> fresh (snd (prepopulate n pl h)) = fresh h + n"
proof (induction n arbitrary: pl h)
  case 0
  then show ?case by simp
next
  case (Suc n)
  define pl1 where "pl1 = pl\<lparr>pool := pool pl @ [fresh h]\<rparr>"
  define h1 where "h1 = snd (createFn h)"
  have s: "prepopulate (Suc n) pl h = prepopulate n pl1 h1"
    by (simp add: pl1_def h1_def createFn_def)
  have f: "fresh h1 = Suc (fresh h)" by (simp add: h1_def createFn_def)
  have u: "[fresh h ..< fresh h + Suc n] = fresh h # [Suc (fresh h) ..< Suc (fresh h) + n]"
    by (simp add: upt_conv_Cons)
  show ?case
    unfolding s u using Suc.IH [of pl1 h1] by (simp add: f pl1_def)
qed

lemma World_new_ok:
  "pool_ok (World_new cw ch rs)" "config_ok (World_new cw ch rs)"
  "buildings (World_new cw ch rs) = []" "difficulty (World_new cw ch rs) = 1"
  "distanceTraveled (World_new cw ch rs) = 0" "scrollSpeed (World_new cw ch rs) = 6"
  "randoms (World_new cw ch rs) = rs" "canvasWidth (World_new cw ch rs) = cw"
  "canvasHeight (World_new cw ch rs) = ch"
proof -
  define h0 :: heap where
    "h0 = \<lparr>objs = (\<lambda>_. \<lparr>x = 0, y = 0, width = 0, height = 0, active = False, style = 0\<rparr>), fresh = 0\<rparr>"
  define pl0 where "pl0 = \<lparr>pool = [], activeObjs = []\<rparr>"
  define ph where "ph = ObjectPool_new 15 h0"
  have e: "pool (fst ph) = [0 ..< 15]" "activeObjs (fst ph) = []" "fresh (snd ph) = 15"
    using prepopulate_effect [of 15 pl0 h0]
    unfolding ph_def ObjectPool_new_def pl0_def [symmetric]
    by (simp_all add: pl0_def h0_def)
  have W: "buildingPool (World_new cw ch rs) = fst ph" "mem (World_new cw ch rs) = snd ph"
    unfolding World_new_def h0_def [symmetric] ph_def [symmetric]
    by (simp_all add: case_prod_beta)
  show b: "buildings (World_new cw ch rs) = []"
    unfolding World_new_def by (simp add: case_prod_beta)
  show "pool_ok (World_new cw ch rs)"
    unfolding pool_ok_def W b e by simp
  show "config_ok (World_new cw ch rs)"
    "difficulty (World_new cw ch rs) = 1"
    "distanceTraveled (World_new cw ch rs) = 0" "scrollSpeed (World_new cw ch rs) = 6"
    "randoms (World_new cw ch rs) = rs" "canvasWidth (World_new cw ch rs) = cw"
    "canvasHeight (World_new cw ch rs) = ch"
    unfolding World_new_def config_ok_def by (simp_all add: case_prod_beta)
qed

lemma unit_interval_shift: "unit_interval rs \<Longrightarrow> unit_interval (\<lambda>n. rs (Suc n))"
  by (simp add: unit_interval_def)

lemma first_building_inv:
  assumes p: "pool_ok w" "config_ok w" "unit_interval (randoms w)" "buildings w = []"
    and d: "difficulty w = 1"
  shows "frontier_inv 0 ((addBuilding w 0 (groundY w) 400)\<lparr>lastBuildingEnd := 400\<rparr>)"
    and "settings ((addBuilding w 0 (groundY w) 400)\<lparr>lastBuildingEnd := 400\<rparr>) = settings w"
proof -
  let ?a = "addBuilding w 0 (groundY w) 400"
  let ?w = "?a\<lparr>lastBuildingEnd := 400\<rparr>"
  obtain a where bs: "buildings ?a = buildings w @ [a]"
    and new: "bld ?a a = \<lparr>x = 0, y = groundY w, width = 400,
                height = canvasHeight w - groundY w + 200, active = True,
                style = \<lfloor>randoms w 0 * 3\<rfloor>\<rparr>"
    and rn: "randoms ?a = (\<lambda>n. randoms w (Suc n))"
    and st: "settings ?a = settings w"
    and pl: "pool_ok ?a"
    using addBuilding_effect [OF p(1), of 0 "groundY w" 400] by blast
  have b: "bld ?w c = bld ?a c" for c by (simp add: bld_def)
  show st': "settings ?w = settings w" using st by (simp add: settings_def)
  note f = settings_fields [OF st']
  show "frontier_inv 0 ?w"
    unfolding frontier_inv_def
  proof (intro conjI)
    show "pool_ok ?w" using pl by (simp add: pool_ok_def)
    show "config_ok ?w" using p(2) by (simp add: config_ok_settings [OF st'])
    show "unit_interval (randoms ?w)" using p(3) by (simp add: rn unit_interval_shift)
    show "1 \<le> difficulty ?w" using d by (simp add: f)
    show "(0::real) \<le> 0" by simp
    show "0 + 16 \<le> 80 * min (difficulty ?w) 2" using d by (simp add: f)
    show "list_all (platform_ok 0 ?w) (buildings ?w)"
      by (simp add: bs p(4) platform_ok_def b new f)
    show "separated 16 ?w" by (simp add: separated_def bs p(4))
  qed
qed

lemma generateInitialBuildings_inv:
  assumes p: "pool_ok w" "config_ok w" "unit_interval (randoms w)" "buildings w = []"
    and d: "difficulty w = 1" "distanceTraveled w = 0" "scrollSpeed w = 6"
    and g: "generateInitialBuildings w = Some w'"
  shows "world_inv w'" and "settings w' = settings w"
proof -
  let ?w = "(addBuilding w 0 (groundY w) 400)\<lparr>lastBuildingEnd := 400\<rparr>"
  note a = first_building_inv [OF p d(1)]
  have l: "generateInitialLoop ?w = Some w'" using g by (simp add: generateInitialBuildings_def)
  have f0: "frontier_inv 0 w'" and st0: "settings w' = settings ?w"
    using generateInitialLoop_inv [OF l, of 0] a(1) by simp_all
  show st: "settings w' = settings w" using st0 a(2) by simp
  note f = settings_fields [OF st]
  have "frontier_inv (100 / 16.67 * scrollSpeed w') (w'\<lparr>lastBuildingEnd := lastBuildingEnd w' - 0\<rparr>)"
    by (rule frontier_inv_retreat [OF f0]) (simp_all add: f d)
  then show "world_inv w'" by (simp add: world_inv_def f d)
qed

lemma generateInitialBuildings_terminates:
  assumes p: "pool_ok w" "config_ok w" "unit_interval (randoms w)" "buildings w = []"
    and d: "difficulty w = 1"
  shows "\<exists>w'. generateInitialBuildings w = Some w'"
  unfolding generateInitialBuildings_def
  by (rule generateInitialLoop_terminates
      [OF frontier_inv_generator_ok [OF first_building_inv(1) [OF p d]]])

lemma World_init_inv:
  assumes "unit_interval rs" "World_init (World_new cw ch rs) = Some w"
  shows "world_inv w" "canvasWidth w = cw" "canvasHeight w = ch"
proof -
  note n = World_new_ok [of cw ch rs]
  have g: "generateInitialBuildings (World_new cw ch rs) = Some w"
    using assms(2) by (simp add: World_init_def)
  have u: "unit_interval (randoms (World_new cw ch rs))" using assms(1) by (simp add: n)
  show "world_inv w" by (rule generateInitialBuildings_inv(1) [OF n(1,2) u n(3,4,5,6) g])
  have st: "settings w = settings (World_new cw ch rs)"
    by (rule generateInitialBuildings_inv(2) [OF n(1,2) u n(3,4,5,6) g])
  show "canvasWidth w = cw" "canvasHeight w = ch"
    by (simp_all add: settings_fields [OF st] n)
qed

lemma World_init_terminates:
  assumes "unit_interval rs"
  shows "\<exists>w. World_init (World_new cw ch rs) = Some w"
proof -
  note n = World_new_ok [of cw ch rs]
  have u: "unit_interval (randoms (World_new cw ch rs))" using assms(1) by (simp add: n)
  show ?thesis
    unfolding World_init_def by (rule generateInitialBuildings_terminates [OF n(1,2) u n(3,4)])
qed

section \<open>Reset, runs and their invariants\<close>

lemma world_inv_run_inv: "world_inv w \<Longrightarrow> run_inv w"
  unfolding world_inv_def run_inv_def using frontier_inv_generator_ok by blast

lemma run_inv_facts:
  assumes "run_inv w"
  shows "generator_ok w" "0 \<le> distanceTraveled w"
    "scrollSpeed w = min 14 (6 + distanceTraveled w * 0.0003)"
    "difficulty w = 1 + distanceTraveled w / 3000"
    "6 \<le> scrollSpeed w" "scrollSpeed w \<le> 14" "config_ok w" "pool_ok w"
    "unit_interval (randoms w)" "1 \<le> difficulty w"
proof -
  show 1: "generator_ok w" and 2: "0 \<le> distanceTraveled w"
    and 3: "scrollSpeed w = min 14 (6 + distanceTraveled w * 0.0003)"
    and "difficulty w = 1 + distanceTraveled w / 3000"
    using assms unfolding run_inv_def by blast+
  show "6 \<le> scrollSpeed w" "scrollSpeed w \<le> 14" using 2 3 by simp_all
  show "config_ok w" "pool_ok w" "unit_interval (randoms w)" "1 \<le> difficulty w"
    using 1 by (simp_all add: generator_ok_def)
qed

lemma World_reset_inv:
  assumes p: "pool_ok w" "config_ok w" "unit_interval (randoms w)"
    and r: "World_reset w = Some w'"
  shows "world_inv w'"
    and "settings w' = settings (w\<lparr>worldOffset := 0, difficulty := 1, distanceTraveled := 0,
                                    scrollSpeed := baseSpeed w\<rparr>)"
proof -
  define w1 where "w1 = (releaseAllBuildings w)\<lparr>buildings := []\<rparr>"
  define w2 where "w2 = w1\<lparr>worldOffset := 0, lastBuildingEnd := 0, difficulty := 1,
                  distanceTraveled := 0, scrollSpeed := baseSpeed w1\<rparr>"
  note a = releaseAllBuildings_effect [OF p(1), folded w1_def]
  note f = settings_fields [OF a(2)]
  have g: "generateInitialBuildings w2 = Some w'"
    using r by (simp add: World_reset_def Let_def w1_def w2_def)
  have c1: "config_ok w1" using p(2) by (simp add: config_ok_settings [OF a(2)])
  have q: "pool_ok w2" "config_ok w2" "unit_interval (randoms w2)" "buildings w2 = []"
    "difficulty w2 = 1" "distanceTraveled w2 = 0" "scrollSpeed w2 = 6"
    using a(1) c1 p(3) a(3)
    by (simp_all add: w2_def pool_ok_def config_ok_def w1_def)
  show "world_inv w'" by (rule generateInitialBuildings_inv(1) [OF q g])
  have "settings w' = settings w2" by (rule generateInitialBuildings_inv(2) [OF q g])
  also have "\<dots> = (settings w1)\<lparr>worldOffset := 0, difficulty := 1, distanceTraveled := 0,
                                    scrollSpeed := baseSpeed w\<rparr>"
    by (simp add: w2_def settings_def f(5))
  also have "\<dots> = (settings w)\<lparr>worldOffset := 0, difficulty := 1, distanceTraveled := 0,
                                    scrollSpeed := baseSpeed w\<rparr>"
    by (simp only: a(2))
  also have "\<dots> = settings (w\<lparr>worldOffset := 0, difficulty := 1, distanceTraveled := 0,
                                    scrollSpeed := baseSpeed w\<rparr>)"
    by (simp add: settings_def)
  finally show "settings w' = settings (w\<lparr>worldOffset := 0, difficulty := 1,
      distanceTraveled := 0, scrollSpeed := baseSpeed w\<rparr>)" .
qed

lemma World_reset_terminates:
  assumes p: "pool_ok w" "config_ok w" "unit_interval (randoms w)"
  shows "\<exists>w'. World_reset w = Some w'"
proof -
  define w1 where "w1 = (releaseAllBuildings w)\<lparr>buildings := []\<rparr>"
  define w2 where "w2 = w1\<lparr>worldOffset := 0, lastBuildingEnd := 0, difficulty := 1,
                  distanceTraveled := 0, scrollSpeed := baseSpeed w1\<rparr>"
  note a = releaseAllBuildings_effect [OF p(1), folded w1_def]
  have c1: "config_ok w1" using p(2) by (simp add: config_ok_settings [OF a(2)])
  have q: "pool_ok w2" "config_ok w2" "unit_interval (randoms w2)" "buildings w2 = []"
    "difficulty w2 = 1"
    using a(1) c1 p(3) a(3)
    by (simp_all add: w2_def pool_ok_def config_ok_def w1_def)
  have "\<exists>w'. generateInitialBuildings w2 = Some w'"
    by (rule generateInitialBuildings_terminates [OF q])
  then show ?thesis by (simp add: World_reset_def Let_def w1_def w2_def)
qed

lemma generator_ok_scrolled:
  assumes ok: "generator_ok w" and s: "0 \<le> scrollAmountOf w dt" "0 \<le> distanceTraveled w"
  shows "generator_ok (scrollBuildings (length (buildings w)) (scrollAmountOf w dt) (advanced w dt))"
proof -
  define w3 where "w3 = advanced w dt"
  define w4 where "w4 = scrollBuildings (length (buildings w)) (scrollAmountOf w dt) w3"
  have p: "pool_ok w" "config_ok w" "unit_interval (randoms w)"
    using ok by (simp_all add: generator_ok_def)
  have "pool_ok w3" using p(1) by (simp add: w3_def advanced_fields)
  then have "scrolled_from w3 (scrollAmountOf w dt) 0
               (scrollBuildings (length (buildings w3)) (scrollAmountOf w dt) w3)"
    by (rule scrollBuildings_effect)
  then have sc: "scrolled_from w3 (scrollAmountOf w dt) 0 w4"
    by (simp add: w4_def w3_def advanced_fields)
  then have h: "pool_ok w4" "settings w4 = settings w3" "randoms w4 = randoms w3"
    by (simp_all add: scrolled_from_def)
  have "generator_ok w4"
    unfolding generator_ok_def
  proof (intro conjI)
    show "pool_ok w4" by (rule h(1))
    show "config_ok w4" using p(2) by (simp add: config_ok_settings [OF h(2)] w3_def advanced_fields)
    show "unit_interval (randoms w4)" using p(3) by (simp add: h(3) w3_def advanced_fields)
    show "1 \<le> difficulty w4"
      using s by (simp add: settings_fields [OF h(2)] w3_def advanced_fields)
  qed
  then show ?thesis by (simp add: w4_def w3_def)
qed

lemma World_update_fields:
  assumes upd: "World_update w dt = Some w'"
  shows "settings w' = settings (advanced w dt)"
proof -
  obtain w5 where l: "generateAheadLoop
             (scrollBuildings (length (buildings w)) (scrollAmountOf w dt) (advanced w dt)) = Some w5"
    and w': "w' = w5\<lparr>lastBuildingEnd := lastBuildingEnd w5 - scrollAmountOf w dt\<rparr>"
    using upd by (auto simp: World_update_expand split: option.splits)
  have "settings w5 = settings (advanced w dt)"
    using generateAheadLoop_generator_ok [OF l] by simp
  then show ?thesis by (simp add: w' settings_def)
qed

lemma run_inv_update:
  assumes inv: "run_inv w" and dt: "0 \<le> dt" and upd: "World_update w dt = Some w'"
  shows "run_inv w'"
    and "distanceTraveled w' = distanceTraveled w + scrollAmountOf w dt"
    and "0 \<le> scrollAmountOf w dt"
    and "scrollSpeed w \<le> scrollSpeed w'"
proof -
  note i = run_inv_facts [OF inv]
  have "0 \<le> dt / 16.67" using dt by simp
  then show s: "0 \<le> scrollAmountOf w dt"
    unfolding scrollAmountOf_def using i(5) by (intro mult_nonneg_nonneg) simp_all
  have c: "baseSpeed w = 6" "maxSpeed w = 14" "speedIncreaseRate w = 0.0003"
    using i(7) by (simp_all add: config_ok_def)
  obtain w5 where l: "generateAheadLoop
             (scrollBuildings (length (buildings w)) (scrollAmountOf w dt) (advanced w dt)) = Some w5"
    and w': "w' = w5\<lparr>lastBuildingEnd := lastBuildingEnd w5 - scrollAmountOf w dt\<rparr>"
    using upd by (auto simp: World_update_expand split: option.splits)
  have "generator_ok w5"
    using generateAheadLoop_generator_ok [OF l] generator_ok_scrolled [OF i(1) s i(2)] by simp
  then have g: "generator_ok w'"
    by (simp add: w' generator_ok_def pool_ok_def config_ok_def)
  note f = settings_fields [OF World_update_fields [OF upd]]
  show D: "distanceTraveled w' = distanceTraveled w + scrollAmountOf w dt"
    by (simp add: f advanced_fields)
  have v: "scrollSpeed w' = min 14 (6 + distanceTraveled w' * 0.0003)"
    by (simp add: f advanced_fields c)
  show "scrollSpeed w \<le> scrollSpeed w'"
    unfolding v i(3) D using s by (simp add: min_def)
  show "run_inv w'"
    unfolding run_inv_def
  proof (intro conjI)
    show "generator_ok w'" by (rule g)
    show "0 \<le> distanceTraveled w'" using i(2) s by (simp add: D)
    show "scrollSpeed w' = min 14 (6 + distanceTraveled w' * 0.0003)" by (rule v)
    show "difficulty w' = 1 + distanceTraveled w' / 3000" by (simp add: f advanced_fields)
  qed
qed

lemma run_inv_update_terminates:
  assumes inv: "run_inv w" and dt: "0 \<le> dt"
  shows "\<exists>w'. World_update w dt = Some w'"
proof -
  note i = run_inv_facts [OF inv]
  have "0 \<le> dt / 16.67" using dt by simp
  then have "0 \<le> scrollAmountOf w dt"
    unfolding scrollAmountOf_def using i(5) by (intro mult_nonneg_nonneg) simp_all
  then show ?thesis using i(1,2) by (intro World_update_terminates)
qed

lemma reachable_run_inv:
  assumes "reachable ok w" and "\<And>dt. ok dt \<Longrightarrow> 0 \<le> dt"
  shows "run_inv w"
  using assms(1)
proof (induction rule: reachable.induct)
  case (reachable_init rs cw ch w)
  then show ?case by (simp add: World_init_inv(1) world_inv_run_inv)
next
  case (reachable_reset w w')
  note i = run_inv_facts [OF reachable_reset.IH]
  show ?case by (rule world_inv_run_inv [OF World_reset_inv(1) [OF i(8,7,9) reachable_reset.hyps(2)]])
next
  case (reachable_update w dt w')
  show ?case
    by (rule run_inv_update(1) [OF reachable_update.IH assms(2) [OF reachable_update.hyps(2)]
          reachable_update.hyps(3)])
qed

lemma reachable_world_inv:
  assumes "reachable (\<lambda>dt. 0 \<le> dt \<and> dt \<le> 100) w"
  shows "world_inv w"
  using assms
proof (induction rule: reachable.induct)
  case (reachable_init rs cw ch w)
  then show ?case by (simp add: World_init_inv(1))
next
  case (reachable_reset w w')
  note i = world_inv_facts [OF reachable_reset.IH]
  have u: "unit_interval (randoms w)" using i(9) by (simp add: generator_ok_def)
  show ?case by (rule World_reset_inv(1) [OF i(8,7) u reachable_reset.hyps(2)])
next
  case (reachable_update w dt w')
  then show ?case by (auto intro: world_inv_update)
qed

section \<open>Running the world on concrete input\<close>

lemma prepopulate_objs:
  "objs h = (\<lambda>_. blank) \<Longrightarrow> objs (snd (prepopulate n pl h)) = (\<lambda>_. blank)"
proof (induction n arbitrary: pl h)
  case 0
  then show ?case by simp
next
  case (Suc n)
  have "objs (snd (createFn h)) = (\<lambda>_. blank)"
    using Suc.prems by (simp add: createFn_def blank_def fun_eq_iff)
  then show ?case
    using Suc.IH [of "snd (createFn h)" "pl\<lparr>pool := pool pl @ [fst (createFn h)]\<rparr>"]
    by (simp add: case_prod_beta)
qed

lemma World_new_literal:
  "World_new cw ch rs =
     \<lparr>canvasWidth = cw, canvasHeight = ch, groundY = ch - 100,
      scrollSpeed = 6, baseSpeed = 6, maxSpeed = 14, speedIncreaseRate = 0.0003,
      buildings = [],
      buildingPool = \<lparr>pool = [0, 1, 2, 3, 4, 5, 6, 7, 8, 9, 10, 11, 12, 13, 14], activeObjs = []\<rparr>,
      worldOffset = 0, lastBuildingEnd = 0, distanceTraveled = 0, difficulty = 1,
      minBuildingWidth = 200, maxBuildingWidth = 500, minGap = 80, maxGap = 200,
      heightVariation = 80, mem = \<lparr>objs = (\<lambda>_. blank), fresh = 15\<rparr>, randoms = rs\<rparr>"
proof -
  define h0 :: heap where "h0 = \<lparr>objs = (\<lambda>_. blank), fresh = 0\<rparr>"
  define ph where "ph = ObjectPool_new 15 h0"
  have e: "pool (fst ph) = [0 ..< 15]" "activeObjs (fst ph) = []" "fresh (snd ph) = 15"
    using prepopulate_effect [of 15 "\<lparr>pool = [], activeObjs = []\<rparr>" h0]
    unfolding ph_def ObjectPool_new_def
    by (simp_all add: h0_def)
  have o: "objs (snd ph) = (\<lambda>_. blank)"
    unfolding ph_def ObjectPool_new_def by (rule prepopulate_objs) (simp add: h0_def)
  have u: "[0 ..< 15] = [0, 1, 2, 3, 4, 5, 6, 7, 8, 9, 10, 11, 12, 13, 14::nat]"
    by (simp add: upt_rec)
  have p: "fst ph = \<lparr>pool = [0, 1, 2, 3, 4, 5, 6, 7, 8, 9, 10, 11, 12, 13, 14], activeObjs = []\<rparr>"
    using e(1,2) u by (cases "fst ph") simp
  have m: "snd ph = \<lparr>objs = (\<lambda>_. blank), fresh = 15\<rparr>"
    using e(3) o by (cases "snd ph") simp
  show ?thesis
    unfolding World_new_def blank_def [symmetric] h0_def [symmetric] ph_def [symmetric]
    by (simp add: case_prod_beta p m)
qed

lemmas eval_world =
  World_init_def generateInitialBuildings_def addBuilding_expand generateInitialLoop.simps
  generateAheadLoop.simps generateNextBuilding_expand ObjectPool_get_def createFn_def
  nextGap_def nextWidth_def nextY_def clamp_def bld_def zeros_def World_new_literal
  case_prod_beta Let_def fun_eq_iff
  scrollBuilding_def ObjectPool_release_def resetFn_def World_update_expand advanced_def
  scrollAmountOf_def World_reset_def releaseAllBuildings_def

lemma first_world_built: "World_init (World_new 800 600 zeros) = Some first_world"
  by (simp add: eval_world first_world_def)

lemma long_frame_world_reached: "World_update first_world 1667 = Some long_frame_world"
  by (simp add: eval_world first_world_def long_frame_world_def)

lemma overlap_world_reached: "World_update long_frame_world 0 = Some overlap_world"
  by (simp add: eval_world long_frame_world_def overlap_world_def)

lemma restart_world_reached: "World_reset first_world = Some restart_world"
  by (simp add: eval_world first_world_def restart_world_def)

lemma restart_world_again_reached: "World_reset restart_world = Some restart_world_again"
  by (simp add: eval_world restart_world_def restart_world_again_def)

lemma restart_world_next_reached: "World_update restart_world 16.67 = Some restart_world_next"
  by (simp add: eval_world restart_world_def restart_world_next_def)

lemma restart_world_still: "World_update restart_world 0 = Some restart_world"
  by (simp add: eval_world restart_world_def)

lemma frame_world_1_reached: "World_update restart_world (stride restart_world) = Some frame_world_1"
  by (simp add: eval_world stride_def restart_world_def frame_world_1_def)

lemma frame_world_2_reached: "World_update frame_world_1 (stride frame_world_1) = Some frame_world_2"
  by (simp add: eval_world stride_def frame_world_1_def frame_world_2_def)

lemma frame_world_3_reached: "World_update frame_world_2 (stride frame_world_2) = Some frame_world_3"
  by (simp add: eval_world stride_def frame_world_2_def frame_world_3_def)

lemma frame_world_4_reached: "World_update frame_world_3 (stride frame_world_3) = Some frame_world_4"
  by (simp add: eval_world stride_def frame_world_3_def frame_world_4_def)

lemma frame_world_5_reached: "World_update frame_world_4 (stride frame_world_4) = Some frame_world_5"
  by (simp add: eval_world stride_def frame_world_4_def frame_world_5_def)

lemma frame_world_6_reached: "World_update frame_world_5 (stride frame_world_5) = Some frame_world_6"
  by (simp add: eval_world stride_def frame_world_5_def frame_world_6_def)

lemma frame_world_7_reached: "World_update frame_world_6 (stride frame_world_6) = Some frame_world_7"
  by (simp add: eval_world stride_def frame_world_6_def frame_world_7_def)

lemma frame_world_8_reached: "World_update frame_world_7 (stride frame_world_7) = Some frame_world_8"
  by (simp add: eval_world stride_def frame_world_7_def frame_world_8_def)

lemma frame_world_9_reached: "World_update frame_world_8 (stride frame_world_8) = Some frame_world_9"
  by (simp add: eval_world stride_def frame_world_8_def frame_world_9_def)


section \<open>The world in a run: overlap, speed, gaps\<close>

lemma unit_interval_zeros: "unit_interval zeros"
  by (simp add: unit_interval_def zeros_def)

lemma frames_unfold:
  "capped_frame = (\<lambda>dt. 0 \<le> dt \<and> dt \<le> 100)" "any_frame = (\<lambda>dt. 0 \<le> dt)"
  by (simp_all add: fun_eq_iff capped_frame_def any_frame_def)

lemma separated_no_overlap:
  assumes "separated d w" "0 \<le> d"
  shows "no_overlap w"
proof -
  have "x (bld w (buildings w ! i)) + width (bld w (buildings w ! i)) + d
          \<le> x (bld w (buildings w ! j))"
    if "i < j" "j < length (buildings w)" for i j
    using assms(1) that unfolding separated_def by (simp add: sorted_wrt_iff_nth_less)
  then show ?thesis using assms(2) by (fastforce simp: no_overlap_def)
qed

lemma world_inv_no_overlap:
  assumes "world_inv w"
  shows "no_overlap w" "list_all (\<lambda>a. active (bld w a)) (buildings w)"
proof -
  have f: "frontier_inv (100 / 16.67 * scrollSpeed w) w" by (rule world_inv_facts(1) [OF assms])
  then have "separated 16 w" by (simp add: frontier_inv_def)
  then show "no_overlap w" by (rule separated_no_overlap) simp
  have "list_all (platform_ok (100 / 16.67 * scrollSpeed w) w) (buildings w)"
    using f by (simp add: frontier_inv_def)
  then show "list_all (\<lambda>a. active (bld w a)) (buildings w)"
    by (simp add: list_all_iff platform_ok_def)
qed

lemma capped_update_total:
  assumes "world_inv w" "capped_frame dt"
  shows "\<exists>w'. World_update w dt = Some w'"
  using assms run_inv_update_terminates [OF world_inv_run_inv, of w dt]
  by (simp add: capped_frame_def)

text \<open>
  C1. In a run whose frame times lie between 0 and 100 ms, the range that the game loop
  passes to \<open>update\<close>, the platforms never overlap: of two platforms of the list the
  earlier one ends before the later one begins, and all of them are active. Every
  update with such a frame time and every reset returns, and returns a world without
  overlap.
\<close>

theorem no_overlap_in_capped_runs:
  assumes "reachable capped_frame w"
  shows "no_overlap w \<and> list_all (\<lambda>a. active (bld w a)) (buildings w)
     \<and> (\<forall>dt w'. capped_frame dt \<and> World_update w dt = Some w' \<longrightarrow> no_overlap w')
     \<and> (\<forall>dt. capped_frame dt \<longrightarrow> (\<exists>w'. World_update w dt = Some w'))
     \<and> (\<forall>w'. World_reset w = Some w' \<longrightarrow> no_overlap w')
     \<and> (\<exists>w'. World_reset w = Some w')"
proof -
  have inv: "world_inv w"
    using assms unfolding frames_unfold by (rule reachable_world_inv)
  note i = world_inv_facts [OF inv]
  have u: "unit_interval (randoms w)" using i(9) by (simp add: generator_ok_def)
  have 1: "no_overlap w" "list_all (\<lambda>a. active (bld w a)) (buildings w)"
    by (rule world_inv_no_overlap [OF inv])+
  have 2: "no_overlap w'" if "capped_frame dt \<and> World_update w dt = Some w'" for dt w'
    using that world_inv_no_overlap(1) [OF world_inv_update [OF inv, of dt w']]
    by (simp add: capped_frame_def)
  have 3: "\<exists>w'. World_update w dt = Some w'" if "capped_frame dt" for dt
    using inv that by (rule capped_update_total)
  have 4: "no_overlap w'" if "World_reset w = Some w'" for w'
    using world_inv_no_overlap(1) [OF World_reset_inv(1) [OF i(8,7) u that]] .
  have 5: "\<exists>w'. World_reset w = Some w'" by (rule World_reset_terminates [OF i(8,7) u])
  show ?thesis using 1 2 3 4 5 by blast
qed

lemma restart_world_next_in_run: "reachable capped_frame restart_world_next"
proof -
  have "reachable capped_frame first_world"
    by (rule reachable_init [OF unit_interval_zeros first_world_built])
  then have "reachable capped_frame restart_world"
    by (rule reachable_reset [OF _ restart_world_reached])
  then show ?thesis
    by (rule reachable_update [OF _ _ restart_world_next_reached]) (simp add: capped_frame_def)
qed

theorem no_overlap_in_capped_runs_witness:
  "reachable capped_frame restart_world_next \<and> no_overlap restart_world_next
   \<and> map (\<lambda>a. (x (bld restart_world_next a), width (bld restart_world_next a)))
       (buildings restart_world_next)
     = [(- 6, 400), (474, 180), (734, 180), (994, 180), (1254, 180), (1514, 180)]"
  using no_overlap_in_capped_runs [OF restart_world_next_in_run] restart_world_next_in_run
  by (simp add: restart_world_next_def bld_def)

theorem overlap_after_long_frame:
  "reachable any_frame overlap_world
   \<and> x (bld overlap_world (buildings overlap_world ! 6))
        + width (bld overlap_world (buildings overlap_world ! 6)) = 2244
   \<and> x (bld overlap_world (buildings overlap_world ! 7)) = 1740
   \<and> \<not> no_overlap overlap_world"
proof -
  have "reachable any_frame first_world"
    by (rule reachable_init [OF unit_interval_zeros first_world_built])
  then have "reachable any_frame long_frame_world"
    by (rule reachable_update [OF _ _ long_frame_world_reached]) (simp add: any_frame_def)
  then have r: "reachable any_frame overlap_world"
    by (rule reachable_update [OF _ _ overlap_world_reached]) (simp add: any_frame_def)
  have a: "x (bld overlap_world (buildings overlap_world ! 6))
        + width (bld overlap_world (buildings overlap_world ! 6)) = 2244"
    and b: "x (bld overlap_world (buildings overlap_world ! 7)) = 1740"
    and c: "active (bld overlap_world (buildings overlap_world ! 6))"
      "active (bld overlap_world (buildings overlap_world ! 7))"
      "length (buildings overlap_world) = 9"
    by (simp_all add: overlap_world_def bld_def)
  have "\<not> no_overlap overlap_world"
  proof
    assume "no_overlap overlap_world"
    then have "x (bld overlap_world (buildings overlap_world ! 6))
        + width (bld overlap_world (buildings overlap_world ! 6))
        \<le> x (bld overlap_world (buildings overlap_world ! 7))"
      unfolding no_overlap_def using c by (elim allE [of _ 6] allE [of _ 7]) simp
    then show False using a b by simp
  qed
  then show ?thesis using r a b by simp
qed


lemma first_world_in_run: "reachable any_frame first_world"
  by (rule reachable_init [OF unit_interval_zeros first_world_built])

lemma World_reset_settings:
  assumes "World_reset w = Some w'"
  shows "settings w' = settings (w\<lparr>worldOffset := 0, difficulty := 1, distanceTraveled := 0,
                                    scrollSpeed := baseSpeed w\<rparr>)"
proof -
  define w2 where "w2 = ((releaseAllBuildings w)\<lparr>buildings := []\<rparr>)
       \<lparr>worldOffset := 0, lastBuildingEnd := 0, difficulty := 1,
        distanceTraveled := 0, scrollSpeed := baseSpeed ((releaseAllBuildings w)\<lparr>buildings := []\<rparr>)\<rparr>"
  define w3 where "w3 = (addBuilding w2 0 (groundY w2) 400)\<lparr>lastBuildingEnd := 400\<rparr>"
  have l: "generateInitialLoop w3 = Some w'"
    using assms by (simp add: World_reset_def Let_def generateInitialBuildings_def w2_def w3_def)
  have "settings w' = settings w3" using generateInitialLoop_generator_ok [OF l] by simp
  also have "\<dots> = settings w2"
    by (simp add: w3_def addBuilding_expand settings_def case_prod_beta)
  also have "\<dots> = settings (w\<lparr>worldOffset := 0, difficulty := 1, distanceTraveled := 0,
                                    scrollSpeed := baseSpeed w\<rparr>)"
    by (simp add: w2_def settings_def releaseAllBuildings_def case_prod_beta)
  finally show ?thesis .
qed

text \<open>
  C4. In a run whose frame times are not negative, the scroll speed is at most
  \<open>maxSpeed\<close>, which is 14, and equals \<open>min(maxSpeed, baseSpeed + distanceTraveled *
  speedIncreaseRate)\<close>. Every update with a non-negative frame time returns; it leaves
  the speed and the distance at least as large as they were, and the speed is again the
  same function of the distance. A reset puts the speed back to \<open>baseSpeed\<close> and the
  distance to 0, from where it can only grow again.
\<close>

theorem scrollSpeed_monotone_and_capped:
  assumes "reachable any_frame w"
  shows "scrollSpeed w \<le> maxSpeed w \<and> maxSpeed w = 14
     \<and> scrollSpeed w = min (maxSpeed w) (baseSpeed w + distanceTraveled w * speedIncreaseRate w)
     \<and> (\<forall>dt. 0 \<le> dt \<longrightarrow> (\<exists>w'. World_update w dt = Some w'))
     \<and> (\<forall>dt w'. 0 \<le> dt \<and> World_update w dt = Some w' \<longrightarrow>
            scrollSpeed w \<le> scrollSpeed w' \<and> distanceTraveled w \<le> distanceTraveled w'
            \<and> scrollSpeed w' = min (maxSpeed w')
                 (baseSpeed w' + distanceTraveled w' * speedIncreaseRate w')
            \<and> scrollSpeed w' \<le> 14)
     \<and> (\<forall>w'. World_reset w = Some w' \<longrightarrow>
            scrollSpeed w' = baseSpeed w' \<and> distanceTraveled w' = 0)"
proof -
  have inv: "run_inv w"
    using assms by (rule reachable_run_inv) (simp add: any_frame_def)
  note i = run_inv_facts [OF inv]
  have c: "baseSpeed w = 6" "maxSpeed w = 14" "speedIncreaseRate w = 0.0003"
    using i(7) by (simp_all add: config_ok_def)
  have 1: "scrollSpeed w \<le> maxSpeed w" "maxSpeed w = 14"
    "scrollSpeed w = min (maxSpeed w) (baseSpeed w + distanceTraveled w * speedIncreaseRate w)"
    using i(3,6) by (simp_all add: c)
  have 2: "\<exists>w'. World_update w dt = Some w'" if "0 \<le> dt" for dt
    using inv that by (rule run_inv_update_terminates)
  have 3: "scrollSpeed w \<le> scrollSpeed w' \<and> distanceTraveled w \<le> distanceTraveled w'
            \<and> scrollSpeed w' = min (maxSpeed w')
                 (baseSpeed w' + distanceTraveled w' * speedIncreaseRate w')
            \<and> scrollSpeed w' \<le> 14"
    if h: "0 \<le> dt \<and> World_update w dt = Some w'" for dt w'
  proof -
    from h have dt: "0 \<le> dt" and upd: "World_update w dt = Some w'" by simp_all
    note u = run_inv_update [OF inv dt upd]
    note j = run_inv_facts [OF u(1)]
    have c': "baseSpeed w' = 6" "maxSpeed w' = 14" "speedIncreaseRate w' = 0.0003"
      using j(7) by (simp_all add: config_ok_def)
    show ?thesis using u(2,3,4) j(3,6) by (simp add: c')
  qed
  have 4: "scrollSpeed w' = baseSpeed w' \<and> distanceTraveled w' = 0"
    if "World_reset w = Some w'" for w'
    using settings_fields [OF World_reset_settings [OF that]] by simp
  show ?thesis using 1 2 3 4 by blast
qed

theorem scrollSpeed_monotone_and_capped_witness:
  "reachable any_frame first_world \<and> (0::real) \<le> 1667
   \<and> World_update first_world 1667 = Some long_frame_world
   \<and> scrollSpeed first_world = 6 \<and> scrollSpeed long_frame_world = 6.18
   \<and> scrollSpeed first_world \<le> scrollSpeed long_frame_world
   \<and> distanceTraveled first_world \<le> distanceTraveled long_frame_world
   \<and> scrollSpeed long_frame_world \<le> 14
   \<and> World_reset first_world = Some restart_world
   \<and> scrollSpeed restart_world = baseSpeed restart_world"
  using scrollSpeed_monotone_and_capped [OF first_world_in_run] first_world_in_run
    long_frame_world_reached restart_world_reached
  by (simp add: first_world_def long_frame_world_def)

text \<open>
  C6. Where the generator can run (the pool is well formed, the constants are the
  constructor's, the random numbers lie in [0, 1) and the difficulty is at least 1, as
  in every state of a run with non-negative frame times and at every call inside
  \<open>update\<close> and \<open>reset\<close>), \<open>generateNextBuilding\<close> appends one platform, at
  \<open>x = lastBuildingEnd + gap\<close>. The gap is the number drawn between
  \<open>minGap * min(difficulty, 2)\<close> and \<open>maxGap * min(difficulty, 2)\<close>, so it lies between
  80 and 400 and is positive, and the frontier moves to the end of the new platform. The
  generator can run again afterwards.
\<close>

theorem generated_gap_bounds:
  assumes "generator_ok w"
  shows "\<exists>a. buildings (generateNextBuilding w) = buildings w @ [a]
     \<and> x (bld (generateNextBuilding w) a) = lastBuildingEnd w + nextGap w
     \<and> minGap w * min (difficulty w) 2 \<le> nextGap w
     \<and> nextGap w \<le> maxGap w * min (difficulty w) 2
     \<and> minGap w = 80 \<and> maxGap w = 200
     \<and> 80 \<le> nextGap w \<and> nextGap w \<le> 400 \<and> 0 < nextGap w
     \<and> lastBuildingEnd (generateNextBuilding w)
         = x (bld (generateNextBuilding w) a) + width (bld (generateNextBuilding w) a)
     \<and> generator_ok (generateNextBuilding w)"
proof -
  have i: "pool_ok w" "config_ok w" "unit_interval (randoms w)" "1 \<le> difficulty w"
    using assms by (simp_all add: generator_ok_def)
  have u: "0 \<le> randoms w 0" "randoms w 0 < 1"
    using i(3) by (simp_all add: unit_interval_def)
  have c: "minGap w = 80" "maxGap w = 200" using i(2) by (simp_all add: config_ok_def)
  have d: "0 \<le> difficulty w" using i(4) by simp
  note g = nextGap_bounds [OF i(2) u d]
  have lo: "80 \<le> minGap w * min (difficulty w) 2" using i(4) by (simp add: c)
  have hi: "maxGap w * min (difficulty w) 2 \<le> 400" by (simp add: c)
  have b: "80 \<le> nextGap w" "nextGap w \<le> 400" "0 < nextGap w"
    using g lo hi by linarith+
  obtain a where bs: "buildings (generateNextBuilding w) = buildings w @ [a]"
    and new: "bld (generateNextBuilding w) a =
           \<lparr>x = lastBuildingEnd w + nextGap w, y = nextY w, width = nextWidth w,
            height = canvasHeight w - nextY w + 200, active = True,
            style = \<lfloor>randoms w 3 * 3\<rfloor>\<rparr>"
    and fr: "lastBuildingEnd (generateNextBuilding w) = lastBuildingEnd w + nextGap w + nextWidth w"
    using generateNextBuilding_effect [OF i(1)] by blast
  have "buildings (generateNextBuilding w) = buildings w @ [a]
     \<and> x (bld (generateNextBuilding w) a) = lastBuildingEnd w + nextGap w
     \<and> minGap w * min (difficulty w) 2 \<le> nextGap w
     \<and> nextGap w \<le> maxGap w * min (difficulty w) 2
     \<and> minGap w = 80 \<and> maxGap w = 200
     \<and> 80 \<le> nextGap w \<and> nextGap w \<le> 400 \<and> 0 < nextGap w
     \<and> lastBuildingEnd (generateNextBuilding w)
         = x (bld (generateNextBuilding w) a) + width (bld (generateNextBuilding w) a)
     \<and> generator_ok (generateNextBuilding w)"
    using bs g b c generator_ok_generate [OF assms] by (simp add: new fr)
  then show ?thesis ..
qed

lemma first_world_generator_ok: "generator_ok first_world"
  by (rule run_inv_facts(1) [OF reachable_run_inv [OF first_world_in_run]])
    (simp add: any_frame_def)

theorem generated_gap_bounds_witness:
  "generator_ok first_world
   \<and> buildings (generateNextBuilding first_world) = buildings first_world @ [8]
   \<and> x (bld (generateNextBuilding first_world) 8) = 1700 + 80
   \<and> lastBuildingEnd first_world = 1700 \<and> nextGap first_world = 80
   \<and> min (difficulty first_world) 2 = 1"
  using generated_gap_bounds [OF first_world_generator_ok] first_world_generator_ok
  by (simp add: first_world_def generateNextBuilding_expand ObjectPool_get_def nextGap_def
      zeros_def bld_def)

section \<open>Reset and the platform under a point\<close>

lemma generateInitialBuildings_settings:
  assumes "generateInitialBuildings w = Some w'"
  shows "settings w' = settings w"
proof -
  define w3 where "w3 = (addBuilding w 0 (groundY w) 400)\<lparr>lastBuildingEnd := 400\<rparr>"
  have l: "generateInitialLoop w3 = Some w'"
    using assms by (simp add: generateInitialBuildings_def w3_def)
  have "settings w' = settings w3" using generateInitialLoop_generator_ok [OF l] by simp
  also have "\<dots> = settings w"
    by (simp add: w3_def addBuilding_expand settings_def case_prod_beta)
  finally show ?thesis .
qed

lemma generateInitialLoop_keeps_first:
  assumes "generateInitialLoop w = Some w'"
  shows "pool_ok w \<and> buildings w \<noteq> [] \<longrightarrow>
           pool_ok w' \<and> buildings w' \<noteq> [] \<and> hd (buildings w') = hd (buildings w)
           \<and> bld w' (hd (buildings w)) = bld w (hd (buildings w))"
proof (rule generateInitialLoop.raw_induct
    [where P = "\<lambda>w w'. pool_ok w \<and> buildings w \<noteq> [] \<longrightarrow>
           pool_ok w' \<and> buildings w' \<noteq> [] \<and> hd (buildings w') = hd (buildings w)
           \<and> bld w' (hd (buildings w)) = bld w (hd (buildings w))", OF _ assms])
  fix loop :: "world \<Rightarrow> world option" and v v'
  assume IH: "\<And>u u'. loop u = Some u' \<Longrightarrow> pool_ok u \<and> buildings u \<noteq> [] \<longrightarrow>
           pool_ok u' \<and> buildings u' \<noteq> [] \<and> hd (buildings u') = hd (buildings u)
           \<and> bld u' (hd (buildings u)) = bld u (hd (buildings u))"
    and step: "(if lastBuildingEnd v < canvasWidth v + 800
                then loop (generateNextBuilding v) else Some v) = Some v'"
  show "pool_ok v \<and> buildings v \<noteq> [] \<longrightarrow>
           pool_ok v' \<and> buildings v' \<noteq> [] \<and> hd (buildings v') = hd (buildings v)
           \<and> bld v' (hd (buildings v)) = bld v (hd (buildings v))"
  proof (cases "lastBuildingEnd v < canvasWidth v + 800")
    case True
    with step have r: "loop (generateNextBuilding v) = Some v'" by simp
    show ?thesis
    proof
      assume a: "pool_ok v \<and> buildings v \<noteq> []"
      then obtain c where c: "c \<notin> set (buildings v)"
        and bs: "buildings (generateNextBuilding v) = buildings v @ [c]"
        and old: "\<forall>b. b \<noteq> c \<longrightarrow> bld (generateNextBuilding v) b = bld v b"
        and pl: "pool_ok (generateNextBuilding v)"
        using generateNextBuilding_effect [of v] by blast
      have hd: "hd (buildings (generateNextBuilding v)) = hd (buildings v)"
        using a by (simp add: bs)
      have "hd (buildings v) \<in> set (buildings v)" using a by simp
      then have ne: "hd (buildings v) \<noteq> c" using c by auto
      have "pool_ok v' \<and> buildings v' \<noteq> []
            \<and> hd (buildings v') = hd (buildings (generateNextBuilding v))
            \<and> bld v' (hd (buildings (generateNextBuilding v)))
                = bld (generateNextBuilding v) (hd (buildings (generateNextBuilding v)))"
        using IH [OF r] pl by (simp add: bs)
      then show "pool_ok v' \<and> buildings v' \<noteq> [] \<and> hd (buildings v') = hd (buildings v)
           \<and> bld v' (hd (buildings v)) = bld v (hd (buildings v))"
        using old ne by (simp add: hd)
    qed
  next
    case False
    with step have "v' = v" by simp
    then show ?thesis by simp
  qed
qed

lemma World_reset_first_platform:
  assumes p: "pool_ok w" and r: "World_reset w = Some w'"
  shows "buildings w' \<noteq> []"
    and "bld w' (hd (buildings w')) =
           \<lparr>x = 0, y = groundY w, width = 400, height = canvasHeight w - groundY w + 200,
            active = True, style = \<lfloor>randoms w 0 * 3\<rfloor>\<rparr>"
proof -
  define w2 where "w2 = ((releaseAllBuildings w)\<lparr>buildings := []\<rparr>)
       \<lparr>worldOffset := 0, lastBuildingEnd := 0, difficulty := 1,
        distanceTraveled := 0, scrollSpeed := baseSpeed ((releaseAllBuildings w)\<lparr>buildings := []\<rparr>)\<rparr>"
  define w3 where "w3 = (addBuilding w2 0 (groundY w2) 400)\<lparr>lastBuildingEnd := 400\<rparr>"
  note a = releaseAllBuildings_effect [OF p]
  note f = settings_fields [OF a(2)]
  have p2: "pool_ok w2" using a(1) by (simp add: w2_def pool_ok_def)
  have b2: "buildings w2 = []" by (simp add: w2_def)
  have g2: "groundY w2 = groundY w" "canvasHeight w2 = canvasHeight w"
    "randoms w2 = randoms w"
    using f(2,3) a(3) by (simp_all add: w2_def)
  obtain c where bs: "buildings (addBuilding w2 0 (groundY w2) 400) = buildings w2 @ [c]"
    and new: "bld (addBuilding w2 0 (groundY w2) 400) c =
                \<lparr>x = 0, y = groundY w2, width = 400,
                 height = canvasHeight w2 - groundY w2 + 200, active = True,
                 style = \<lfloor>randoms w2 0 * 3\<rfloor>\<rparr>"
    and pl: "pool_ok (addBuilding w2 0 (groundY w2) 400)"
    using addBuilding_effect [OF p2, of 0 "groundY w2" 400] by blast
  have p3: "pool_ok w3" using pl by (simp add: w3_def pool_ok_def)
  have b3: "buildings w3 = [c]" by (simp add: w3_def bs b2)
  have n3: "bld w3 c = \<lparr>x = 0, y = groundY w, width = 400,
                 height = canvasHeight w - groundY w + 200, active = True,
                 style = \<lfloor>randoms w 0 * 3\<rfloor>\<rparr>"
    using new by (simp add: w3_def bld_def g2)
  have l: "generateInitialLoop w3 = Some w'"
    using r by (simp add: World_reset_def Let_def generateInitialBuildings_def w2_def w3_def)
  have k: "buildings w' \<noteq> [] \<and> hd (buildings w') = hd (buildings w3)
           \<and> bld w' (hd (buildings w3)) = bld w3 (hd (buildings w3))"
    using generateInitialLoop_keeps_first [OF l] p3 b3 by simp
  then show "buildings w' \<noteq> []" by simp
  show "bld w' (hd (buildings w')) =
           \<lparr>x = 0, y = groundY w, width = 400, height = canvasHeight w - groundY w + 200,
            active = True, style = \<lfloor>randoms w 0 * 3\<rfloor>\<rparr>"
    using k by (simp add: b3 n3)
qed

lemma World_reset_twice:
  assumes h: "World_reset w = Some w1" "World_reset w1 = Some w2"
  shows "settings w2 = settings w1
        \<and> scrollSpeed w1 = baseSpeed w1 \<and> distanceTraveled w1 = 0
        \<and> worldOffset w1 = 0 \<and> difficulty w1 = 1
        \<and> scrollSpeed w2 = baseSpeed w2 \<and> distanceTraveled w2 = 0
        \<and> worldOffset w2 = 0 \<and> difficulty w2 = 1
        \<and> baseSpeed w2 = baseSpeed w \<and> canvasWidth w2 = canvasWidth w
        \<and> canvasHeight w2 = canvasHeight w \<and> groundY w2 = groundY w"
proof -
  note a = World_reset_settings [OF h(1)] World_reset_settings [OF h(2)]
  note f1 = settings_fields [OF a(1)] and f2 = settings_fields [OF a(2)]
  have e: "w1\<lparr>worldOffset := 0, difficulty := 1, distanceTraveled := 0,
              scrollSpeed := baseSpeed w1\<rparr> = w1"
    by (simp add: f1)
  have "settings w2 = settings w1" using a(2) by (simp add: e)
  then show ?thesis by (simp add: f1 f2)
qed

lemma World_reset_after_init:
  assumes h: "World_init (World_new cw ch rs) = Some w" "World_reset w = Some w1"
  shows "settings w1 = settings w"
proof -
  have s: "settings w = settings (World_new cw ch rs)"
    using h(1) by (simp add: World_init_def generateInitialBuildings_settings)
  note f = settings_fields [OF s]
  have e: "w\<lparr>worldOffset := 0, difficulty := 1, distanceTraveled := 0,
              scrollSpeed := baseSpeed w\<rparr> = w"
    by (simp add: f World_new_literal)
  show ?thesis using World_reset_settings [OF h(2)] by (simp add: e)
qed

lemma run_resets_return:
  assumes "reachable any_frame w"
  shows "\<exists>w1 w2. World_reset w = Some w1 \<and> World_reset w1 = Some w2
           \<and> pool_ok w \<and> pool_ok w1"
proof -
  have "run_inv w" by (rule reachable_run_inv [OF assms]) (simp add: any_frame_def)
  note i = run_inv_facts [OF this]
  obtain w1 where w1: "World_reset w = Some w1"
    using World_reset_terminates [OF i(8,7,9)] by blast
  note j = run_inv_facts [OF world_inv_run_inv [OF World_reset_inv(1) [OF i(8,7,9) w1]]]
  obtain w2 where w2: "World_reset w1 = Some w2"
    using World_reset_terminates [OF j(8,7,9)] by blast
  show ?thesis using w1 w2 i(8) j(8) by blast
qed

text \<open>
  C7. A second reset changes nothing that the first one set. For the player,
  \<open>reset(x, y)\<close> applied twice is \<open>reset(x, y)\<close> applied once, and position, velocity,
  \<open>grounded\<close>, \<open>alive\<close>, \<open>isJumping\<close>, the trail and the animation frame are then those
  of a newly constructed player. For the world of a run with non-negative frame times,
  \<open>reset\<close> returns, and so does a second \<open>reset\<close> straight after it; the two leave every
  field that is not drawn from the random numbers (everything but the platform list, the
  pool, the platform objects, the random stream and the frontier) as the first one left
  it: \<open>scrollSpeed = baseSpeed\<close>, \<open>distanceTraveled = 0\<close>, \<open>worldOffset = 0\<close>,
  \<open>difficulty = 1\<close>. After each of the two the list starts with the safe platform at
  \<open>x = 0\<close>, 400 wide, at ground level. The constructor and \<open>init\<close> return for random
  numbers in [0, 1), and a reset of the world they build leaves those fields as \<open>init\<close>
  left them: they are the values of the initial state.
\<close>

theorem reset_idempotent:
  "Player_reset (Player_reset p px py) px py = Player_reset p px py
   \<and> x (Player_reset p px py) = x (Player_new px py)
   \<and> y (Player_reset p px py) = y (Player_new px py)
   \<and> velocityX (Player_reset p px py) = velocityX (Player_new px py)
   \<and> velocityY (Player_reset p px py) = velocityY (Player_new px py)
   \<and> grounded (Player_reset p px py) = grounded (Player_new px py)
   \<and> alive (Player_reset p px py) = alive (Player_new px py)
   \<and> isJumping (Player_reset p px py) = isJumping (Player_new px py)
   \<and> trail (Player_reset p px py) = trail (Player_new px py)
   \<and> animationFrame (Player_reset p px py) = animationFrame (Player_new px py)
   \<and> \<not> grounded (Player_reset p px py) \<and> alive (Player_reset p px py)
   \<and> \<not> isJumping (Player_reset p px py) \<and> trail (Player_reset p px py) = []
   \<and> animationFrame (Player_reset p px py) = 0
   \<and> (reachable any_frame w \<longrightarrow>
        (\<exists>w1 w2. World_reset w = Some w1 \<and> World_reset w1 = Some w2
           \<and> settings w2 = settings w1
           \<and> scrollSpeed w1 = baseSpeed w1 \<and> distanceTraveled w1 = 0
           \<and> worldOffset w1 = 0 \<and> difficulty w1 = 1
           \<and> scrollSpeed w2 = baseSpeed w2 \<and> distanceTraveled w2 = 0
           \<and> worldOffset w2 = 0 \<and> difficulty w2 = 1
           \<and> baseSpeed w2 = baseSpeed w \<and> canvasWidth w2 = canvasWidth w
           \<and> canvasHeight w2 = canvasHeight w \<and> groundY w2 = groundY w
           \<and> buildings w1 \<noteq> []
           \<and> x (bld w1 (hd (buildings w1))) = 0 \<and> y (bld w1 (hd (buildings w1))) = groundY w
           \<and> width (bld w1 (hd (buildings w1))) = 400 \<and> active (bld w1 (hd (buildings w1)))
           \<and> buildings w2 \<noteq> []
           \<and> x (bld w2 (hd (buildings w2))) = 0 \<and> y (bld w2 (hd (buildings w2))) = groundY w
           \<and> width (bld w2 (hd (buildings w2))) = 400 \<and> active (bld w2 (hd (buildings w2)))))
   \<and> (unit_interval rs \<longrightarrow>
        (\<exists>w0 w1. World_init (World_new cw ch rs) = Some w0 \<and> World_reset w0 = Some w1
           \<and> settings w1 = settings w0
           \<and> scrollSpeed w0 = baseSpeed w0 \<and> distanceTraveled w0 = 0
           \<and> worldOffset w0 = 0 \<and> difficulty w0 = 1))"
proof -
  have 1: "\<exists>w1 w2. World_reset w = Some w1 \<and> World_reset w1 = Some w2
           \<and> settings w2 = settings w1
           \<and> scrollSpeed w1 = baseSpeed w1 \<and> distanceTraveled w1 = 0
           \<and> worldOffset w1 = 0 \<and> difficulty w1 = 1
           \<and> scrollSpeed w2 = baseSpeed w2 \<and> distanceTraveled w2 = 0
           \<and> worldOffset w2 = 0 \<and> difficulty w2 = 1
           \<and> baseSpeed w2 = baseSpeed w \<and> canvasWidth w2 = canvasWidth w
           \<and> canvasHeight w2 = canvasHeight w \<and> groundY w2 = groundY w
           \<and> buildings w1 \<noteq> []
           \<and> x (bld w1 (hd (buildings w1))) = 0 \<and> y (bld w1 (hd (buildings w1))) = groundY w
           \<and> width (bld w1 (hd (buildings w1))) = 400 \<and> active (bld w1 (hd (buildings w1)))
           \<and> buildings w2 \<noteq> []
           \<and> x (bld w2 (hd (buildings w2))) = 0 \<and> y (bld w2 (hd (buildings w2))) = groundY w
           \<and> width (bld w2 (hd (buildings w2))) = 400 \<and> active (bld w2 (hd (buildings w2)))"
    if h: "reachable any_frame w"
  proof -
    obtain w1 w2 where r: "World_reset w = Some w1" "World_reset w1 = Some w2"
      and p: "pool_ok w" "pool_ok w1"
      using run_resets_return [OF h] by blast
    note t = World_reset_twice [OF r]
    note a = World_reset_first_platform [OF p(1) r(1)]
    note b = World_reset_first_platform [OF p(2) r(2)]
    have g: "groundY w1 = groundY w"
      using settings_fields(3) [OF World_reset_settings [OF r(1)]] by simp
    have "buildings w1 \<noteq> []
           \<and> x (bld w1 (hd (buildings w1))) = 0 \<and> y (bld w1 (hd (buildings w1))) = groundY w
           \<and> width (bld w1 (hd (buildings w1))) = 400 \<and> active (bld w1 (hd (buildings w1)))
           \<and> buildings w2 \<noteq> []
           \<and> x (bld w2 (hd (buildings w2))) = 0 \<and> y (bld w2 (hd (buildings w2))) = groundY w
           \<and> width (bld w2 (hd (buildings w2))) = 400 \<and> active (bld w2 (hd (buildings w2)))"
      using a b by (simp add: g)
    show ?thesis
      by (rule exI [of _ w1], rule exI [of _ w2]) (use r t \<open>buildings w1 \<noteq> [] \<and> _\<close> in simp)
  qed
  have 2: "\<exists>w0 w1. World_init (World_new cw ch rs) = Some w0 \<and> World_reset w0 = Some w1
           \<and> settings w1 = settings w0
           \<and> scrollSpeed w0 = baseSpeed w0 \<and> distanceTraveled w0 = 0
           \<and> worldOffset w0 = 0 \<and> difficulty w0 = 1"
    if h: "unit_interval rs"
  proof -
    obtain w0 where i: "World_init (World_new cw ch rs) = Some w0"
      using World_init_terminates [OF h] by blast
    have "reachable any_frame w0" by (rule reachable_init [OF h i])
    then obtain w1 where r: "World_reset w0 = Some w1"
      using run_resets_return by blast
    have s: "settings w0 = settings (World_new cw ch rs)"
      using i by (simp add: World_init_def generateInitialBuildings_settings)
    have "scrollSpeed w0 = baseSpeed w0 \<and> distanceTraveled w0 = 0
           \<and> worldOffset w0 = 0 \<and> difficulty w0 = 1"
      by (simp add: settings_fields [OF s] World_new_literal)
    then show ?thesis
      by (intro exI [of _ w0] exI [of _ w1]) (use i r World_reset_after_init [OF i r] in simp)
  qed
  show ?thesis
    using 1 2 by (simp add: Player_reset_def Player_new_def)
qed

lemma restart_world_values:
  "scrollSpeed restart_world_again = 6" "distanceTraveled restart_world_again = 0"
  "worldOffset restart_world_again = 0" "difficulty restart_world_again = 1"
  "hd (buildings restart_world) = 9" "x (bld restart_world 9) = 0"
  "width (bld restart_world 9) = 400" "y (bld restart_world 9) = 500"
  "hd (buildings restart_world_again) = 14" "x (bld restart_world_again 14) = 0"
  "width (bld restart_world_again 14) = 400" "y (bld restart_world_again 14) = 500"
  by (simp_all add: restart_world_def restart_world_again_def bld_def)

theorem reset_idempotent_witness:
  "reachable any_frame first_world \<and> unit_interval zeros
   \<and> World_init (World_new 800 600 zeros) = Some first_world
   \<and> World_reset first_world = Some restart_world
   \<and> World_reset restart_world = Some restart_world_again
   \<and> settings restart_world_again = settings restart_world
   \<and> settings restart_world = settings first_world
   \<and> scrollSpeed restart_world_again = 6 \<and> distanceTraveled restart_world_again = 0
   \<and> worldOffset restart_world_again = 0 \<and> difficulty restart_world_again = 1
   \<and> hd (buildings restart_world) = 9 \<and> x (bld restart_world 9) = 0
   \<and> width (bld restart_world 9) = 400 \<and> y (bld restart_world 9) = 500
   \<and> hd (buildings restart_world_again) = 14 \<and> x (bld restart_world_again 14) = 0
   \<and> width (bld restart_world_again 14) = 400 \<and> y (bld restart_world_again 14) = 500"
  using reset_idempotent [of "Player_new 100 452" 100 452 first_world zeros 800 600]
    first_world_in_run unit_interval_zeros
    restart_world_reached restart_world_again_reached first_world_built
  by (simp add: restart_world_values)

lemma getBuildingAt_first:
  assumes sep: "separated 0 w"
    and a: "a \<in> set (buildings w)" "active (bld w a)" "0 < width (bld w a)"
    and px: "px = x (bld w a) + width (bld w a)"
  shows "getBuildingAt w px pw = Some a"
proof -
  let ?P = "\<lambda>c. active (bld w c) \<and> px \<ge> x (bld w c) \<and> px \<le> x (bld w c) + width (bld w c)"
  obtain i where i: "i < length (buildings w)" "buildings w ! i = a"
    using a(1) by (auto simp: in_set_conv_nth)
  have "\<not> ?P (buildings w ! j)" if "j < i" for j
  proof -
    have "x (bld w (buildings w ! j)) + width (bld w (buildings w ! j)) + 0
            \<le> x (bld w (buildings w ! i))"
      using sep that i(1) unfolding separated_def by (simp add: sorted_wrt_iff_nth_less)
    then show ?thesis using a(3) px i(2) by simp
  qed
  moreover have "?P (buildings w ! i)" using a(2,3) px i(2) by simp
  ultimately have "List.find ?P (buildings w) = Some a"
    using i by (auto simp: find_Some_iff)
  then show ?thesis by (simp add: getBuildingAt_def)
qed

section \<open>The player in a tick\<close>

lemma applyGravity_physics:
  "applyGravity physics e (Some d) = e\<lparr>velocityY := min (velocityY e + 0.6 * d) 15\<rparr>"
  by (simp add: applyGravity_def physics_def Physics_new_def Let_def min_def)

lemma updates_keep_entity:
  "x (updateTrail (updateAnimation p dt)) = x p" "y (updateTrail (updateAnimation p dt)) = y p"
  "width (updateTrail (updateAnimation p dt)) = width p"
  "height (updateTrail (updateAnimation p dt)) = height p"
  "velocityY (updateTrail (updateAnimation p dt)) = velocityY p"
  "grounded (updateTrail (updateAnimation p dt)) = grounded p"
  "alive (updateTrail (updateAnimation p dt)) = alive p"
  by (simp_all add: updateAnimation_def updateTrail_def Let_def)

lemma Player_update_cases:
  fixes p :: player and dt :: real
  defines "v \<equiv> min (velocityY p + 0.6 * (dt / 16.67)) 15"
  shows "snd (Player_update p dt gl) =
     updateTrail (updateAnimation
       (if y p + v * (dt / 16.67) + height p > gl
        then p\<lparr>y := gl - height p, velocityY := 0, grounded := True, isJumping := False\<rparr>
        else p\<lparr>velocityY := v, y := y p + v * (dt / 16.67), grounded := False\<rparr>) dt)"
proof -
  have ag: "applyGravity physics p (Some (dt / 16.67)) = p\<lparr>velocityY := v\<rparr>"
    unfolding v_def by (rule applyGravity_physics)
  show ?thesis
    unfolding Player_update_def ag
    by (simp add: resolveGroundCollision_def Let_def)
qed

lemma Player_update_frame:
  "x (snd (Player_update p dt gl)) = x p" "width (snd (Player_update p dt gl)) = width p"
  "height (snd (Player_update p dt gl)) = height p" "alive (snd (Player_update p dt gl)) = alive p"
  unfolding Player_update_cases updates_keep_entity by simp_all

lemma Player_update_snap:
  assumes "y p + min (velocityY p + 0.6 * (dt / 16.67)) 15 * (dt / 16.67) + height p > gl"
  shows "y (snd (Player_update p dt gl)) = gl - height p"
    "velocityY (snd (Player_update p dt gl)) = 0" "grounded (snd (Player_update p dt gl))"
  unfolding Player_update_cases updates_keep_entity using assms by simp_all

lemma Player_update_free:
  assumes "\<not> y p + min (velocityY p + 0.6 * (dt / 16.67)) 15 * (dt / 16.67) + height p > gl"
  shows "y (snd (Player_update p dt gl))
           = y p + min (velocityY p + 0.6 * (dt / 16.67)) 15 * (dt / 16.67)"
    "velocityY (snd (Player_update p dt gl)) = min (velocityY p + 0.6 * (dt / 16.67)) 15"
    "\<not> grounded (snd (Player_update p dt gl))"
  unfolding Player_update_cases updates_keep_entity using assms by simp_all

lemma sorted_wrt_trichotomy:
  "sorted_wrt P xs \<Longrightarrow> a \<in> set xs \<Longrightarrow> b \<in> set xs \<Longrightarrow> a = b \<or> P a b \<or> P b a"
  by (induction xs) auto

lemma killPlayer_fields:
  "\<not> alive (player (killPlayer g))" "state (killPlayer g) = GameOver"
  "grounded (player (killPlayer g)) = grounded (player g)"
  "velocityY (player (killPlayer g)) = velocityY (player g)"
  by (simp_all add: killPlayer_def gameOver_def die_def Let_def)


lemma Game_update_physicsTick:
  "Game_update g =
     (case physicsTick g of
        None \<Rightarrow> None
      | Some g3 \<Rightarrow>
          Some (resolveTick g3 (y (player (heldJump g))) (grounded (player (heldJump g)))
                  (feetBuilding (world g3) (player (heldJump g)))))"
proof (cases "World_update (world (heldJump g)) (deltaTime (heldJump g))")
  case None
  then show ?thesis by (simp add: Game_update_def physicsTick_def Let_def)
next
  case (Some w)
  have "world (playerPhysics (heldJump g\<lparr>world := w\<rparr>) c d) = w" for c d
    by (simp add: playerPhysics_def Let_def)
  then show ?thesis using Some by (simp add: Game_update_def physicsTick_def Let_def)
qed

lemma physicsTick_fields:
  assumes "physicsTick g = Some g3"
  shows "World_update (world (heldJump g)) (deltaTime (heldJump g)) = Some (world g3)"
    and "player g3 = snd (Player_update
            ((player (heldJump g))\<lparr>grounded :=
               grounded (player (heldJump g)) \<and>
               feetBuilding (world g3) (player (heldJump g)) \<noteq> None\<rparr>)
            (deltaTime g)
            (groundLevelFor (canvas_height g) (feetBuilding (world g3) (player (heldJump g)))))"
    and "canvas_height g3 = canvas_height g" and "state g3 = state g"
    and "deltaTime g3 = deltaTime g" and "audio g3 = audio g"
proof -
  obtain w where w: "World_update (world (heldJump g)) (deltaTime (heldJump g)) = Some w"
    and g3: "g3 = playerPhysics (heldJump g\<lparr>world := w\<rparr>) (grounded (player (heldJump g)))
                    (feetBuilding w (player (heldJump g)))"
    using assms by (auto simp: physicsTick_def Let_def split: option.splits)
  have ww: "world g3 = w" by (simp add: g3 playerPhysics_def Let_def)
  show "World_update (world (heldJump g)) (deltaTime (heldJump g)) = Some (world g3)"
    using w ww by simp
  have h: "canvas_height (heldJump g) = canvas_height g" "state (heldJump g) = state g"
    "deltaTime (heldJump g) = deltaTime g" "audio (heldJump g) = audio g"
    by (simp_all add: heldJump_def)
  show "canvas_height g3 = canvas_height g" "state g3 = state g"
    "deltaTime g3 = deltaTime g" "audio g3 = audio g"
    by (simp_all add: g3 playerPhysics_def Let_def h)
  have e: "(player (heldJump g))\<lparr>grounded := False\<rparr> = player (heldJump g)"
    if "\<not> grounded (player (heldJump g))"
    using that by (cases "player (heldJump g)") simp
  show "player g3 = snd (Player_update
            ((player (heldJump g))\<lparr>grounded :=
               grounded (player (heldJump g)) \<and>
               feetBuilding (world g3) (player (heldJump g)) \<noteq> None\<rparr>)
            (deltaTime g)
            (groundLevelFor (canvas_height g) (feetBuilding (world g3) (player (heldJump g)))))"
    unfolding ww by (auto simp: g3 playerPhysics_def Let_def h e)
qed

lemma heldJump_falling:
  assumes "0 \<le> velocityY (player g)"
  shows "heldJump g = g"
  using assms by (simp add: heldJump_def holdJump_def)

lemma heldJump_frame:
  "x (player (heldJump g)) = x (player g)" "y (player (heldJump g)) = y (player g)"
  "width (player (heldJump g)) = width (player g)"
  "height (player (heldJump g)) = height (player g)"
  "grounded (player (heldJump g)) = grounded (player g)"
  "world (heldJump g) = world g" "deltaTime (heldJump g) = deltaTime g"
  "alive (player (heldJump g)) = alive (player g)" "state (heldJump g) = state g"
  "canvas_height (heldJump g) = canvas_height g"
  by (simp_all add: heldJump_def holdJump_def)

lemma getBuildingAt_SomeD:
  assumes "getBuildingAt w px pw = Some a"
  shows "a \<in> set (buildings w)" "active (bld w a)" "x (bld w a) \<le> px"
    "px \<le> x (bld w a) + width (bld w a)"
  using assms by (auto simp: getBuildingAt_def find_Some_iff)

lemma standing_safe:
  assumes inv: "world_inv (world g)" and ch: "canvas_height g = canvasHeight (world g)"
    and sz: "width (player g) = 32" "height (player g) = 48"
    and a: "getBuildingAt (world g) (x (player g) + width (player g) / 2) 1 = Some a"
    and on: "y (player g) + 48 = y (bld (world g) a)"
  shows "\<not> sideCollision g" and "\<not> y (player g) > canvas_height g + 50"
proof -
  let ?w = "world g" and ?p = "player g"
  note i = world_inv_facts [OF inv]
  have f: "list_all (platform_ok (100 / 16.67 * scrollSpeed ?w) ?w) (buildings ?w)"
    "separated 16 ?w"
    using i(1) by (simp_all add: frontier_inv_def)
  note d = getBuildingAt_SomeD [OF a]
  have pk: "platform_ok (100 / 16.67 * scrollSpeed ?w) ?w c" if "c \<in> set (buildings ?w)" for c
    using f(1) that by (simp add: list_all_iff)
  have gy: "groundY ?w = canvasHeight ?w - 100" using i(7) by (simp add: config_ok_def)
  have "y (bld ?w a) \<le> groundY ?w + 60" using pk [OF d(1)] by (simp add: platform_ok_def)
  then show "\<not> y ?p > canvas_height g + 50" using on gy ch by simp
  have "\<not> hitsSide (canvas_height g) ?p (bld ?w c)" if c: "c \<in> set (buildings ?w)" for c
  proof -
    have wc: "120 \<le> width (bld ?w c)" using pk [OF c] by (simp add: platform_ok_def)
    consider "c = a"
      | "x (bld ?w c) + width (bld ?w c) + 16 \<le> x (bld ?w a)"
      | "x (bld ?w a) + width (bld ?w a) + 16 \<le> x (bld ?w c)"
      using sorted_wrt_trichotomy [OF f(2) [unfolded separated_def] c d(1)] by blast
    then show ?thesis
    proof cases
      case 1
      then show ?thesis using on sz by (simp add: hitsSide_def Let_def)
    next
      case 2
      then show ?thesis using d(3) wc sz by (simp add: hitsSide_def Let_def)
    next
      case 3
      then show ?thesis using d(4) sz by (simp add: hitsSide_def Let_def)
    qed
  qed
  then show "\<not> sideCollision g" by (simp add: sideCollision_def list_ex_iff)
qed


lemma resolveTick_standing:
  assumes inv: "world_inv (world g3)" and ch: "canvas_height g3 = canvasHeight (world g3)"
    and sz: "width (player g3) = 32" "height (player g3) = 48"
    and a: "getBuildingAt (world g3) (x (player g3) + width (player g3) / 2) 1 = Some a"
    and l: "(velocityY (player g3) = 0 \<and> grounded (player g3)
              \<and> y (player g3) + 48 = y (bld (world g3) a))
            \<or> landingCheck (player g3) pY False (Some (bld (world g3) a)) = LandOn"
  shows "grounded (player (resolveTick g3 pY False (Some (bld (world g3) a))))"
    and "velocityY (player (resolveTick g3 pY False (Some (bld (world g3) a)))) = 0"
    and "alive (player (resolveTick g3 pY False (Some (bld (world g3) a)))) = alive (player g3)"
    and "state (resolveTick g3 pY False (Some (bld (world g3) a))) = state g3"
    and "y (player (resolveTick g3 pY False (Some (bld (world g3) a)))) + 48 = y (bld (world g3) a)"
    and "height (player (resolveTick g3 pY False (Some (bld (world g3) a)))) = 48"
proof -
  let ?b = "bld (world g3) a"
  define landed where "landed = landingCheck (player g3) pY False (Some ?b)"
  define g4 where "g4 = (case (landed, Some ?b) of
                        (LandOn, Some b) \<Rightarrow>
                          (case landOnBuilding (player g3) (y b) (Some (audio g3)) of
                             (p, au) \<Rightarrow> g3\<lparr>player := p,
                                              audio := (case au of Some l \<Rightarrow> l | None \<Rightarrow> audio g3)\<rparr>)
                      | _ \<Rightarrow> g3)"
  have nc: "landed \<noteq> Crash"
    using l by (auto simp: landed_def landingCheck_def)
  have r: "resolveTick g3 pY False (Some ?b) =
     (if sideCollision g4 then killPlayer g4
      else if y (player g4) > canvas_height g4 + 50 then killPlayer g4
      else g4\<lparr>score := score g4 + (scrollSpeed (world g4) / 10) * (deltaTime g4 / 16.67)\<rparr>)"
    using nc unfolding resolveTick_def landed_def [symmetric] Let_def g4_def [symmetric]
    by simp
  have k: "world g4 = world g3 \<and> canvas_height g4 = canvas_height g3 \<and> state g4 = state g3
     \<and> x (player g4) = x (player g3) \<and> width (player g4) = 32 \<and> height (player g4) = 48
     \<and> alive (player g4) = alive (player g3)
     \<and> grounded (player g4) \<and> velocityY (player g4) = 0 \<and> y (player g4) + 48 = y ?b"
  proof (cases "landed = LandOn")
    case True
    then show ?thesis using sz by (simp add: g4_def landOnBuilding_def)
  next
    case False
    then have e: "g4 = g3" by (cases landed) (simp_all add: g4_def)
    have "velocityY (player g3) = 0 \<and> grounded (player g3) \<and> y (player g3) + 48 = y ?b"
      using l False by (simp add: landed_def)
    then show ?thesis using sz by (simp add: e)
  qed
  have a4: "getBuildingAt (world g4) (x (player g4) + width (player g4) / 2) 1 = Some a"
    using a k sz by simp
  have s: "\<not> sideCollision g4" "\<not> y (player g4) > canvas_height g4 + 50"
    using standing_safe [of g4 a] inv ch k a4 by simp_all
  have e: "resolveTick g3 pY False (Some ?b) =
             g4\<lparr>score := score g4 + (scrollSpeed (world g4) / 10) * (deltaTime g4 / 16.67)\<rparr>"
    using r s by simp
  show "grounded (player (resolveTick g3 pY False (Some ?b)))"
    "velocityY (player (resolveTick g3 pY False (Some ?b))) = 0"
    "alive (player (resolveTick g3 pY False (Some ?b))) = alive (player g3)"
    "state (resolveTick g3 pY False (Some ?b)) = state g3"
    "y (player (resolveTick g3 pY False (Some ?b))) + 48 = y ?b"
    "height (player (resolveTick g3 pY False (Some ?b))) = 48"
    using k by (simp_all add: e)
qed

lemma World_update_canvas:
  assumes "World_update w dt = Some w'"
  shows "canvasHeight w' = canvasHeight w"
  using settings_fields(2) [OF World_update_fields [OF assms]] by (simp add: advanced_fields)


section \<open>The games of a run\<close>

lemma frameTime_fields:
  "world (frameTime g t) = world g" "player (frameTime g t) = player g"
  "canvas_height (frameTime g t) = canvas_height g" "state (frameTime g t) = state g"
  "paused (frameTime g t) = paused g" "lastTime (frameTime g t) = t"
  "deltaTime (frameTime g t) = (if t - lastTime g > 100 then 16.67 else t - lastTime g)"
  by (simp_all add: frameTime_def Let_def)

lemma frameTime_capped:
  assumes "lastTime g \<le> t"
  shows "capped_frame (deltaTime (frameTime g t))"
  using assms by (simp add: frameTime_fields capped_frame_def)

lemma gameLoop_frameTime:
  "gameLoop g t =
     (if \<not> paused g
      then (if state g = Playing then Game_update (frameTime g t)
            else if state g = GameOver \<and> deathAnimationProgress g < 1
            then Some ((frameTime g t)\<lparr>deathAnimationProgress :=
                          deathAnimationProgress g
                            + deltaTime (frameTime g t) / deathAnimationDuration g\<rparr>)
            else Some (frameTime g t))
      else Some (frameTime g t))"
  by (auto simp: gameLoop_def frameTime_def Let_def)

lemma killPlayer_keeps:
  "world (killPlayer g) = world g" "canvas_height (killPlayer g) = canvas_height g"
  "x (player (killPlayer g)) = x (player g)" "y (player (killPlayer g)) = y (player g)"
  "width (player (killPlayer g)) = width (player g)"
  "height (player (killPlayer g)) = height (player g)"
  by (simp_all add: killPlayer_def gameOver_def die_def Let_def)

lemma resolveTick_keeps:
  "world (resolveTick g pY wG cb) = world g"
  "canvas_height (resolveTick g pY wG cb) = canvas_height g"
  "x (player (resolveTick g pY wG cb)) = x (player g)"
  "width (player (resolveTick g pY wG cb)) = width (player g)"
  "height (player (resolveTick g pY wG cb)) = height (player g)"
  "state (resolveTick g pY wG cb) = Playing \<longrightarrow> alive (player (resolveTick g pY wG cb)) = alive (player g)"
proof -
  define g4 where "g4 = (case (landingCheck (player g) pY wG cb, cb) of
                        (LandOn, Some b) \<Rightarrow>
                          (case landOnBuilding (player g) (y b) (Some (audio g)) of
                             (p, au) \<Rightarrow> g\<lparr>player := p,
                                              audio := (case au of Some l \<Rightarrow> l | None \<Rightarrow> audio g)\<rparr>)
                      | _ \<Rightarrow> g)"
  have k: "world g4 = world g \<and> canvas_height g4 = canvas_height g \<and> state g4 = state g
     \<and> x (player g4) = x (player g) \<and> width (player g4) = width (player g)
     \<and> height (player g4) = height (player g) \<and> alive (player g4) = alive (player g)"
    by (simp add: g4_def landOnBuilding_def split: landing.split option.split)
  have r: "resolveTick g pY wG cb = killPlayer g \<or> resolveTick g pY wG cb = killPlayer g4
     \<or> resolveTick g pY wG cb =
          g4\<lparr>score := score g4 + (scrollSpeed (world g4) / 10) * (deltaTime g4 / 16.67)\<rparr>"
    unfolding resolveTick_def Let_def g4_def [symmetric] by simp
  show "world (resolveTick g pY wG cb) = world g"
    "canvas_height (resolveTick g pY wG cb) = canvas_height g"
    "x (player (resolveTick g pY wG cb)) = x (player g)"
    "width (player (resolveTick g pY wG cb)) = width (player g)"
    "height (player (resolveTick g pY wG cb)) = height (player g)"
    "state (resolveTick g pY wG cb) = Playing \<longrightarrow> alive (player (resolveTick g pY wG cb)) = alive (player g)"
    using r k by (auto simp: killPlayer_keeps killPlayer_fields)
qed

lemma Game_update_keeps:
  assumes "Game_update g = Some g'"
  shows "World_update (world g) (deltaTime g) = Some (world g')"
    and "canvas_height g' = canvas_height g"
    and "x (player g') = x (player g)" "width (player g') = width (player g)"
    and "height (player g') = height (player g)"
    and "state g' = Playing \<longrightarrow> alive (player g') = alive (player g)"
proof -
  obtain g3 where pt: "physicsTick g = Some g3"
    and g': "g' = resolveTick g3 (y (player (heldJump g))) (grounded (player (heldJump g)))
                    (feetBuilding (world g3) (player (heldJump g)))"
    using assms by (auto simp: Game_update_physicsTick split: option.splits)
  note pf = physicsTick_fields [OF pt]
  show "World_update (world g) (deltaTime g) = Some (world g')"
    using pf(1) by (simp add: g' resolveTick_keeps heldJump_frame)
  show "canvas_height g' = canvas_height g" by (simp add: g' resolveTick_keeps pf)
  show "x (player g') = x (player g)" "width (player g') = width (player g)"
    "height (player g') = height (player g)"
    by (simp_all add: g' resolveTick_keeps pf(2) Player_update_frame heldJump_frame)
  show "state g' = Playing \<longrightarrow> alive (player g') = alive (player g)"
    using resolveTick_keeps(6) [of g3] by (simp add: g' pf(2) Player_update_frame heldJump_frame)
qed

lemma World_reset_canvas:
  assumes "World_reset w = Some w'"
  shows "canvasHeight w' = canvasHeight w" "groundY w' = groundY w"
  using settings_fields(2,3) [OF World_reset_settings [OF assms]] by simp_all

lemma startGame_inv:
  assumes "game_inv g" "startGame g = Some g'"
  shows "game_inv g'"
proof -
  obtain w where w: "World_reset (world g) = Some w"
    and g': "g' = g\<lparr>state := Playing, score := 0, deathAnimationProgress := 0, world := w,
                    player := Player_reset (player g) 100 (groundY w - 48)\<rparr>"
    using assms(2) by (auto simp: startGame_def Let_def split: option.splits)
  have "reachable capped_frame w"
    using assms(1) w by (auto simp: game_inv_def intro: reachable_reset)
  then show ?thesis
    using assms(1) World_reset_canvas [OF w]
    by (simp add: game_inv_def g' Player_reset_def)
qed

lemma pressJump_inv:
  assumes "game_inv g"
  shows "game_inv (pressJump g)"
  using assms by (simp add: game_inv_def pressJump_def jump_def Let_def)

lemma handleTouchEnd_inv:
  assumes "game_inv g"
  shows "game_inv (handleTouchEnd g)"
  using assms by (simp add: game_inv_def handleTouchEnd_def releaseJump_def)

lemma game_run_inv:
  assumes "game_run g"
  shows "game_inv g"
  using assms
proof (induction rule: game_run.induct)
  case (game_run_new rs stored g)
  obtain w where w: "World_init (World_new 800 600 rs) = Some w"
    and g: "g = \<lparr>state = Menu, score = 0, highScore = stored, storedHighScore = stored,
                paused = False, lastTime = 0, deltaTime = 0,
                deathAnimationProgress = 0, deathAnimationDuration = 500,
                canvas_width = 800, canvas_height = 600, audio = [],
                world = w, player = Player_new 100 (groundY w - 48),
                keys_jump = False, keys_jumpPressed = False\<rparr>"
    using game_run_new(2) by (auto simp: Game_new_def split: option.splits)
  have "reachable capped_frame w" by (rule reachable_init [OF game_run_new(1) w])
  then show ?case
    using World_init_inv(3) [OF game_run_new(1) w] by (simp add: game_inv_def g Player_new_def)
next
  case (game_run_startGame g g')
  then show ?case by (auto intro: startGame_inv)
next
  case (game_run_keyDown g code g')
  then show ?case
    by (auto simp: handleKeyDown_def split: if_splits intro: startGame_inv pressJump_inv)
next
  case (game_run_keyUp g code)
  then show ?case by (simp add: handleKeyUp_def handleTouchEnd_inv)
next
  case (game_run_touch g)
  then show ?case by (simp add: handleTouch_def pressJump_inv)
next
  case (game_run_touchEnd g)
  then show ?case by (simp add: handleTouchEnd_inv)
next
  case (game_run_visibility g hidden now)
  then show ?case by (simp add: game_inv_def handleVisibilityChange_def)
next
  case (game_run_frame g timestamp g')
  note i = game_run_frame.IH [unfolded game_inv_def]
  have inv_f: "game_inv (frameTime g timestamp)"
    using game_run_frame.IH by (simp add: game_inv_def frameTime_fields)
  show ?case
  proof (cases "\<not> paused g \<and> state g = Playing")
    case True
    then have u: "Game_update (frameTime g timestamp) = Some g'"
      using game_run_frame.hyps(3) by (simp add: gameLoop_frameTime)
    note k = Game_update_keeps [OF u, unfolded frameTime_fields]
    have c: "capped_frame (if 100 < timestamp - lastTime g then 16.67 else timestamp - lastTime g)"
      using game_run_frame.hyps(2) by (simp add: capped_frame_def)
    have r: "reachable capped_frame (world g')"
      using i k(1) c by (blast intro: reachable_update)
    have "canvasHeight (world g') = canvasHeight (world g)"
      by (rule World_update_canvas [OF k(1)])
    then show ?thesis using i k r True by (simp add: game_inv_def)
  next
    case False
    then have "g' = frameTime g timestamp
        \<or> g' = (frameTime g timestamp)\<lparr>deathAnimationProgress :=
                          deathAnimationProgress g
                            + deltaTime (frameTime g timestamp) / deathAnimationDuration g\<rparr>"
      using game_run_frame.hyps(3) by (auto simp: gameLoop_frameTime split: if_splits)
    then show ?thesis using inv_f by (auto simp: game_inv_def)
  qed
qed

lemma updating_facts:
  assumes "updating g"
  shows "game_ok g" "game_inv g" "state g = Playing" "alive (player g)" "\<not> paused g"
    "capped_frame (deltaTime g)" "reachable capped_frame (world g)"
proof -
  obtain g0 t where g: "g = frameTime g0 t" and r: "game_run g0" and t: "lastTime g0 \<le> t"
    and p: "\<not> paused g0" "state g0 = Playing"
    using assms by (auto elim: updating.cases)
  note i = game_run_inv [OF r]
  show inv: "game_inv g" using i by (simp add: game_inv_def g frameTime_fields)
  show "state g = Playing" "\<not> paused g" using p by (simp_all add: g frameTime_fields)
  then show "alive (player g)" using inv by (simp add: game_inv_def)
  show c: "capped_frame (deltaTime g)" unfolding g by (rule frameTime_capped [OF t])
  show w: "reachable capped_frame (world g)" using inv by (simp add: game_inv_def)
  have "world_inv (world g)"
    by (rule reachable_world_inv [OF w [unfolded frames_unfold]])
  then show "game_ok g" using inv c by (simp add: game_ok_def game_inv_def capped_frame_def)
qed

lemma reachable_capped_any:
  assumes "reachable capped_frame w"
  shows "reachable any_frame w"
  using assms
proof (induction rule: reachable.induct)
  case (reachable_init rs cw ch w)
  then show ?case by (rule reachable.reachable_init)
next
  case (reachable_reset w w')
  then show ?case by (blast intro: reachable.reachable_reset)
next
  case (reachable_update w dt w')
  then show ?case
    by (auto simp: capped_frame_def any_frame_def intro: reachable.reachable_update)
qed

lemma physicsTick_terminates:
  assumes "reachable any_frame (world g)" "0 \<le> deltaTime g"
  shows "\<exists>g3. physicsTick g = Some g3"
proof -
  have "run_inv (world g)"
    by (rule reachable_run_inv [OF assms(1)]) (simp add: any_frame_def)
  then obtain w' where "World_update (world g) (deltaTime g) = Some w'"
    using run_inv_update_terminates assms(2) by blast
  then show ?thesis by (simp add: physicsTick_def Let_def heldJump_frame)
qed

section \<open>Landing on a rooftop\<close>

lemma landing_tick:
  assumes ok: "game_ok g"
    and air: "\<not> grounded (player g)" "0 \<le> velocityY (player g)"
    and falls: "0 < deltaTime g \<or> 0 < velocityY (player g)"
    and upd: "World_update (world g) (deltaTime g) = Some w'"
    and over: "feetBuilding w' (player g) = Some b"
    and was_above: "y (player g) + height (player g) \<le> y b + 5"
    and crosses: "y (player g)
                   + min (velocityY (player g) + 0.6 * (deltaTime g / 16.67)) 15
                       * (deltaTime g / 16.67)
                   + height (player g) \<ge> y b"
    and top_above: "y (player g) < y b"
  shows "\<exists>g'. Game_update g = Some g' \<and> grounded (player g') \<and> velocityY (player g') = 0
           \<and> alive (player g') = alive (player g) \<and> state g' = state g
           \<and> y (player g') + height (player g') = y b \<and> active b"
proof -
  let ?p = "player g" and ?dt = "deltaTime g"
  define v where "v = min (velocityY ?p + 0.6 * (?dt / 16.67)) 15"
  have k: "world_inv (world g)" "canvas_height g = canvasHeight (world g)"
    "width ?p = 32" "height ?p = 48" "0 \<le> ?dt" "?dt \<le> 100"
    using ok by (simp_all add: game_ok_def)
  have hj: "heldJump g = g" using air(2) by (rule heldJump_falling)
  obtain a where a: "getBuildingAt w' (x ?p + width ?p / 2) 1 = Some a" and b: "b = bld w' a"
    using over by (auto simp: feetBuilding_def)
  have pt: "physicsTick g = Some (playerPhysics (g\<lparr>world := w'\<rparr>) False (Some b))"
    using upd over air(1) by (simp add: physicsTick_def hj Let_def)
  define g3 where "g3 = playerPhysics (g\<lparr>world := w'\<rparr>) False (Some b)"
  have p3: "player g3 = snd (Player_update ?p ?dt (y b))"
    by (simp add: g3_def playerPhysics_def Let_def groundLevelFor_def)
  have w3: "world g3 = w'" "canvas_height g3 = canvas_height g" "state g3 = state g"
    by (simp_all add: g3_def playerPhysics_def Let_def)
  have inv': "world_inv w'" by (rule world_inv_update [OF k(1,5,6) upd])
  have ch': "canvas_height g3 = canvasHeight (world g3)"
    using World_update_canvas [OF upd] k(2) by (simp add: w3)
  have sz: "width (player g3) = 32" "height (player g3) = 48" "x (player g3) = x ?p"
    "alive (player g3) = alive ?p"
    by (simp_all add: p3 Player_update_frame k)
  have a3: "getBuildingAt (world g3) (x (player g3) + width (player g3) / 2) 1 = Some a"
    using a by (simp add: w3 sz k)
  have f: "0 \<le> ?dt / 16.67" using k(5) by simp
  have vpos: "0 < v"
  proof -
    have "0 < velocityY ?p + 0.6 * (?dt / 16.67)"
      using falls air(2) k(5) by (auto intro: add_nonneg_pos add_pos_nonneg)
    then show ?thesis by (simp add: v_def)
  qed
  have l: "(velocityY (player g3) = 0 \<and> grounded (player g3)
              \<and> y (player g3) + 48 = y (bld (world g3) a))
            \<or> landingCheck (player g3) (y ?p) False (Some (bld (world g3) a)) = LandOn"
  proof (cases "y ?p + v * (?dt / 16.67) + height ?p > y b")
    case True
    note s = Player_update_snap [where p = "?p" and dt = "?dt" and gl = "y b", folded v_def, OF True]
    show ?thesis using s by (simp add: p3 w3 b k)
  next
    case False
    note s = Player_update_free [where p = "?p" and dt = "?dt" and gl = "y b", folded v_def, OF False]
    have eq: "y ?p + v * (?dt / 16.67) + height ?p = y b"
      using False crosses by (simp add: v_def)
    have "landingCheck (player g3) (y ?p) False (Some b) = LandOn"
      using vpos was_above top_above eq
      by (simp add: landingCheck_def p3 s Player_update_frame)
    then show ?thesis by (simp add: w3 b)
  qed
  note r = resolveTick_standing [OF _ ch' sz(1,2) a3 l, unfolded w3, OF inv', folded b]
  have "Game_update g = Some (resolveTick g3 (y ?p) False (Some b))"
    using air(1) over by (simp add: Game_update_physicsTick pt hj g3_def [symmetric] w3)
  moreover have "active b" using getBuildingAt_SomeD(2) [OF a] by (simp add: b)
  ultimately show ?thesis using r by (simp add: sz w3 k)
qed

lemma started_game_fields:
  "world started_game = restart_world" "deltaTime started_game = 0"
  "player started_game = Player_new 100 452" "canvas_height started_game = 600"
  "keys_jump started_game = False" "state started_game = Playing"
  "world first_frame_game = restart_world" "deltaTime first_frame_game = 16.67"
  "player first_frame_game = Player_new 100 452" "canvas_height first_frame_game = 600"
  "keys_jump first_frame_game = False" "state first_frame_game = Playing"
  by (simp_all add: started_game_def first_frame_game_def fresh_game_def)

lemma new_player_fields:
  "x (Player_new px py) = px" "y (Player_new px py) = py" "width (Player_new px py) = 32"
  "height (Player_new px py) = 48" "velocityY (Player_new px py) = 0"
  "\<not> grounded (Player_new px py)" "alive (Player_new px py)"
  by (simp_all add: Player_new_def)

lemma first_world_fields: "groundY first_world = 500" "groundY restart_world = 500"
  by (simp_all add: first_world_def restart_world_def)

lemma started_game_from_menu:
  "Game_new 0 zeros = Some fresh_game"
  "startGame fresh_game = Some started_game"
  "handleKeyDown fresh_game ''Space'' = Some started_game"
proof -
  show "Game_new 0 zeros = Some fresh_game"
    by (simp add: Game_new_def first_world_built fresh_game_def first_world_fields)
  have r: "World_reset (world fresh_game) = Some restart_world"
    using restart_world_reached by (simp add: fresh_game_def)
  have p: "Player_reset (Player_new 100 452) 100 452 = Player_new 100 452"
    by (simp add: Player_reset_def Player_new_def)
  show s: "startGame fresh_game = Some started_game"
    unfolding startGame_def Let_def
    by (simp add: fresh_game_def restart_world_reached first_world_fields p started_game_def)
  show "handleKeyDown fresh_game ''Space'' = Some started_game"
    unfolding handleKeyDown_def using s by (simp add: isJumpKey_def fresh_game_def)
qed

lemma resolveTick_plain:
  assumes "landingCheck (player g3) pY wG cb = NoLanding" "\<not> sideCollision g3"
    "\<not> y (player g3) > canvas_height g3 + 50"
  shows "resolveTick g3 pY wG cb =
           g3\<lparr>score := score g3 + (scrollSpeed (world g3) / 10) * (deltaTime g3 / 16.67)\<rparr>"
  using assms by (simp add: resolveTick_def Let_def)

lemma physicsTick_airborne:
  assumes "\<not> keys_jump g" "\<not> grounded (player g)"
    and "World_update (world g) (deltaTime g) = Some w"
  shows "physicsTick g = Some (g\<lparr>world := w,
           player := snd (Player_update (player g) (deltaTime g)
                           (groundLevelFor (canvas_height g) (feetBuilding w (player g))))\<rparr>)"
  using assms by (simp add: physicsTick_def heldJump_def playerPhysics_def Let_def)

lemma physicsTick_over:
  assumes air: "\<not> grounded (player g)" "0 \<le> velocityY (player g)"
    and pt: "physicsTick g = Some g3"
    and over: "feetBuilding (world g3) (player g) = Some b"
  shows "World_update (world g) (deltaTime g) = Some (world g3)"
    and "player g3 = snd (Player_update (player g) (deltaTime g) (y b))"
proof -
  have hj: "heldJump g = g" using air(2) by (rule heldJump_falling)
  note pf = physicsTick_fields [OF pt, unfolded hj]
  show "World_update (world g) (deltaTime g) = Some (world g3)" by (rule pf(1))
  have e: "(player g)\<lparr>grounded := False\<rparr> = player g"
    using air(1) by (cases "player g") simp
  show "player g3 = snd (Player_update (player g) (deltaTime g) (y b))"
    using pf(2) air(1) by (simp add: over groundLevelFor_def e)
qed

text \<open>
  C2. Let \<open>update\<close> be called by \<open>gameLoop\<close> in a run of the game, with the player
  airborne and \<open>velocityY \<ge> 0\<close>, and let the frame time be positive or the velocity be
  positive, so that the player falls after gravity. Then the update of the world and
  \<open>player.update\<close> return. If the player's feet are then over a platform, its bottom
  edge before the tick was no lower than the rooftop plus 5, its bottom edge after
  \<open>player.update\<close> is at or below the rooftop, and its top edge before the tick was
  above the rooftop, then the platform is active, the tick returns, and after it the
  player stands on that rooftop with \<open>grounded = true\<close> and \<open>velocityY = 0\<close>, is alive,
  and the game is still being played: no branch of the tick has killed the player.
\<close>

theorem landing_when_falling_onto_rooftop:
  assumes run: "updating g"
    and air: "\<not> grounded (player g)" "0 \<le> velocityY (player g)"
    and falls: "0 < deltaTime g \<or> 0 < velocityY (player g)"
  shows "\<exists>g3. physicsTick g = Some g3
          \<and> (\<forall>b. feetBuilding (world g3) (player g) = Some b
                  \<and> y (player g) + height (player g) \<le> y b + 5
                  \<and> y (player g3) + height (player g3) \<ge> y b
                  \<and> y (player g) < y b
               \<longrightarrow> active b
                   \<and> (\<exists>g'. Game_update g = Some g' \<and> grounded (player g')
                          \<and> velocityY (player g') = 0
                          \<and> alive (player g') \<and> state g' = Playing
                          \<and> y (player g') + height (player g') = y b))"
proof -
  note u = updating_facts [OF run]
  have "capped_frame (deltaTime g)" by (rule u(6))
  then have "0 \<le> deltaTime g" by (simp add: capped_frame_def)
  then obtain g3 where pt: "physicsTick g = Some g3"
    using physicsTick_terminates [OF reachable_capped_any [OF u(7)]] by blast
  have "active b
        \<and> (\<exists>g'. Game_update g = Some g' \<and> grounded (player g') \<and> velocityY (player g') = 0
               \<and> alive (player g') \<and> state g' = Playing
               \<and> y (player g') + height (player g') = y b)"
    if h: "feetBuilding (world g3) (player g) = Some b
           \<and> y (player g) + height (player g) \<le> y b + 5
           \<and> y (player g3) + height (player g3) \<ge> y b
           \<and> y (player g) < y b" for b
  proof -
    from h have over: "feetBuilding (world g3) (player g) = Some b" by simp
    note o = physicsTick_over [OF air pt over]
    have c: "y (player g)
               + min (velocityY (player g) + 0.6 * (deltaTime g / 16.67)) 15
                   * (deltaTime g / 16.67)
               + height (player g) \<ge> y b"
    proof (cases "y (player g)
               + min (velocityY (player g) + 0.6 * (deltaTime g / 16.67)) 15
                   * (deltaTime g / 16.67)
               + height (player g) > y b")
      case True
      then show ?thesis by simp
    next
      case False
      from Player_update_free(1) [OF False] h show ?thesis
        by (simp add: o(2) Player_update_frame)
    qed
    have "\<exists>g'. Game_update g = Some g' \<and> grounded (player g') \<and> velocityY (player g') = 0
           \<and> alive (player g') = alive (player g) \<and> state g' = state g
           \<and> y (player g') + height (player g') = y b \<and> active b"
      using h c by (intro landing_tick [OF u(1) air falls o(1) over]) simp_all
    then show ?thesis using u(3,4) by auto
  qed
  then show ?thesis using pt by blast
qed

lemma started_game_run: "game_run fresh_game" "game_run started_game"
proof -
  show "game_run fresh_game"
    by (rule game_run_new [OF unit_interval_zeros started_game_from_menu(1)])
  then show "game_run started_game"
    by (rule game_run_keyDown [OF _ started_game_from_menu(3)])
qed

lemma started_game_updating: "updating first_frame_game" "updating started_game"
proof -
  have f: "lastTime started_game = 0" "\<not> paused started_game" "state started_game = Playing"
    by (simp_all add: started_game_def fresh_game_def)
  have a: "frameTime started_game 16.67 = first_frame_game"
    by (simp add: frameTime_def Let_def first_frame_game_def started_game_def fresh_game_def)
  have b: "frameTime started_game 0 = started_game"
    by (simp add: frameTime_def Let_def started_game_def fresh_game_def)
  have "updating (frameTime started_game 16.67)"
    by (rule updating_frame [OF started_game_run(2)]) (simp_all add: f)
  then show "updating first_frame_game" by (simp only: a)
  have "updating (frameTime started_game 0)"
    by (rule updating_frame [OF started_game_run(2)]) (simp_all add: f)
  then show "updating started_game" by (simp only: b)
qed

lemma first_frame_tick:
  "physicsTick first_frame_game \<noteq> None"
  "world (the (physicsTick first_frame_game)) = restart_world_next"
  "feetBuilding restart_world_next (player first_frame_game)
     = Some \<lparr>x = - 6, y = 500, width = 400, height = 300, active = True, style = 0\<rparr>"
  "y (player (the (physicsTick first_frame_game))) = 452"
  "height (player (the (physicsTick first_frame_game))) = 48"
proof -
  let ?b = "\<lparr>x = - 6, y = 500, width = 400, height = 300, active = True, style = 0\<rparr> :: building"
  let ?g = first_frame_game
  note f = started_game_fields(7-12) new_player_fields
  define p3 where "p3 = snd (Player_update (Player_new 100 452) 16.67 500)"
  have upd: "World_update (world ?g) (deltaTime ?g) = Some restart_world_next"
    using restart_world_next_reached by (simp add: f)
  show over: "feetBuilding restart_world_next (player ?g) = Some ?b"
    by (simp add: feetBuilding_def getBuildingAt_def bld_def restart_world_next_def f)
  have pt: "physicsTick ?g = Some (?g\<lparr>world := restart_world_next, player := p3\<rparr>)"
    using physicsTick_airborne [OF _ _ upd] over
    by (simp add: f groundLevelFor_def p3_def)
  have snap: "y (Player_new 100 452)
                 + min (velocityY (Player_new 100 452) + 0.6 * (16.67 / 16.67)) 15 * (16.67 / 16.67)
                 + height (Player_new 100 452) > 500"
    by (simp add: f)
  note u = Player_update_snap [OF snap, folded p3_def]
    Player_update_frame [where p = "Player_new 100 452" and dt = "16.67" and gl = 500,
      folded p3_def]
  show "physicsTick ?g \<noteq> None" "world (the (physicsTick ?g)) = restart_world_next"
    "y (player (the (physicsTick ?g))) = 452" "height (player (the (physicsTick ?g))) = 48"
    using u by (simp_all add: pt f)
qed

theorem landing_when_falling_onto_rooftop_witness:
  "updating first_frame_game
   \<and> \<not> grounded (player first_frame_game) \<and> velocityY (player first_frame_game) = 0
   \<and> deltaTime first_frame_game = 16.67
   \<and> physicsTick first_frame_game \<noteq> None
   \<and> world (the (physicsTick first_frame_game)) = restart_world_next
   \<and> feetBuilding restart_world_next (player first_frame_game)
       = Some \<lparr>x = - 6, y = 500, width = 400, height = 300, active = True, style = 0\<rparr>
   \<and> y (player first_frame_game) + height (player first_frame_game) = 500
   \<and> y (player (the (physicsTick first_frame_game)))
       + height (player (the (physicsTick first_frame_game))) = 500
   \<and> y (player first_frame_game) = 452
   \<and> Game_update first_frame_game \<noteq> None
   \<and> grounded (player (the (Game_update first_frame_game)))
   \<and> velocityY (player (the (Game_update first_frame_game))) = 0
   \<and> y (player (the (Game_update first_frame_game))) = 452
   \<and> alive (player (the (Game_update first_frame_game)))
   \<and> state (the (Game_update first_frame_game)) = Playing"
proof -
  let ?b = "\<lparr>x = - 6, y = 500, width = 400, height = 300, active = True, style = 0\<rparr> :: building"
  let ?g = first_frame_game
  note f = started_game_fields(7-12) new_player_fields
  note t = first_frame_tick
  define g3 where "g3 = the (physicsTick ?g)"
  have pt: "physicsTick ?g = Some g3" using t(1) by (simp add: g3_def)
  have k: "world g3 = restart_world_next" "y (player g3) = 452" "height (player g3) = 48"
    using t(2,4,5) by (simp_all add: g3_def)
  have "\<exists>g3. physicsTick ?g = Some g3
          \<and> (\<forall>b. feetBuilding (world g3) (player ?g) = Some b
                  \<and> y (player ?g) + height (player ?g) \<le> y b + 5
                  \<and> y (player g3) + height (player g3) \<ge> y b
                  \<and> y (player ?g) < y b
               \<longrightarrow> active b
                   \<and> (\<exists>g'. Game_update ?g = Some g' \<and> grounded (player g')
                          \<and> velocityY (player g') = 0
                          \<and> alive (player g') \<and> state g' = Playing
                          \<and> y (player g') + height (player g') = y b))"
    by (rule landing_when_falling_onto_rooftop [OF started_game_updating(1)]) (simp_all add: f)
  then have b: "\<forall>b. feetBuilding (world g3) (player ?g) = Some b
                  \<and> y (player ?g) + height (player ?g) \<le> y b + 5
                  \<and> y (player g3) + height (player g3) \<ge> y b
                  \<and> y (player ?g) < y b
               \<longrightarrow> active b
                   \<and> (\<exists>g'. Game_update ?g = Some g' \<and> grounded (player g')
                          \<and> velocityY (player g') = 0
                          \<and> alive (player g') \<and> state g' = Playing
                          \<and> y (player g') + height (player g') = y b)"
    unfolding pt by simp
  have h: "feetBuilding (world g3) (player ?g) = Some ?b
           \<and> y (player ?g) + height (player ?g) \<le> y ?b + 5
           \<and> y (player g3) + height (player g3) \<ge> y ?b
           \<and> y (player ?g) < y ?b"
    using t(3) by (simp add: k f)
  obtain g' where g': "Game_update ?g = Some g'" "grounded (player g')"
    "velocityY (player g') = 0" "alive (player g')" "state g' = Playing"
    "y (player g') + height (player g') = y ?b"
    using b [rule_format, OF h] by blast
  have "height (player g') = 48"
    using Game_update_keeps(5) [OF g'(1)] by (simp add: f)
  then have "y (player g') = 452" using g'(6) by simp
  then show ?thesis
    using started_game_updating(1) t g' by (simp add: f)
qed

theorem no_landing_in_a_frame_of_zero:
  "updating started_game
   \<and> \<not> grounded (player started_game) \<and> 0 \<le> velocityY (player started_game)
   \<and> physicsTick started_game \<noteq> None
   \<and> feetBuilding (world (the (physicsTick started_game))) (player started_game)
       = Some \<lparr>x = 0, y = 500, width = 400, height = 300, active = True, style = 0\<rparr>
   \<and> y (player started_game) + height (player started_game) \<le> 500 + 5
   \<and> y (player (the (physicsTick started_game)))
       + height (player (the (physicsTick started_game))) \<ge> 500
   \<and> y (player started_game) < 500
   \<and> Game_update started_game \<noteq> None
   \<and> \<not> grounded (player (the (Game_update started_game)))
   \<and> velocityY (player (the (Game_update started_game))) = 0
   \<and> alive (player (the (Game_update started_game)))"
proof -
  let ?b = "\<lparr>x = 0, y = 500, width = 400, height = 300, active = True, style = 0\<rparr> :: building"
  note f = started_game_fields(1-6) new_player_fields
  define p3 where "p3 = snd (Player_update (Player_new 100 452) 0 500)"
  define g3 where "g3 = started_game\<lparr>world := restart_world, player := p3\<rparr>"
  have upd: "World_update (world started_game) (deltaTime started_game) = Some restart_world"
    using restart_world_still by (simp add: f)
  have over: "feetBuilding restart_world (player started_game) = Some ?b"
    by (simp add: feetBuilding_def getBuildingAt_def bld_def restart_world_def f)
  have pt: "physicsTick started_game = Some g3"
    using physicsTick_airborne [OF _ _ upd]
    using over by (simp add: f groundLevelFor_def g3_def p3_def)
  have free: "\<not> y (Player_new 100 452)
                 + min (velocityY (Player_new 100 452) + 0.6 * (0 / 16.67)) 15 * (0 / 16.67)
                 + height (Player_new 100 452) > 500"
    by (simp add: f)
  note u = Player_update_free [OF free, folded p3_def]
    Player_update_frame [where p = "Player_new 100 452" and dt = 0 and gl = 500, folded p3_def]
  have q: "y p3 = 452" "velocityY p3 = 0" "\<not> grounded p3" "x p3 = 100" "width p3 = 32"
    "height p3 = 48" "alive p3"
    using u by (simp_all add: f)
  have w3: "world g3 = restart_world" "player g3 = p3" by (simp_all add: g3_def)
  have hj: "heldJump started_game = started_game" by (simp add: heldJump_def f)
  have g: "Game_update started_game = Some (resolveTick g3 452 False (Some ?b))"
    using over by (simp add: Game_update_physicsTick pt hj f g3_def)
  have nl: "landingCheck (player g3) 452 False (Some ?b) = NoLanding"
    by (simp add: landingCheck_def g3_def q)
  have ns: "\<not> sideCollision g3"
    by (simp add: sideCollision_def hitsSide_def Let_def g3_def q f restart_world_def bld_def)
  have nf: "\<not> y (player g3) > canvas_height g3 + 50" by (simp add: g3_def q f)
  note r = resolveTick_plain [OF nl ns nf]
  show ?thesis
    using started_game_updating(2) over by (simp add: g r f pt w3 q)
qed

section \<open>Running into a wall\<close>





lemma restart_world_in_run: "reachable capped_frame restart_world"
proof -
  have "reachable capped_frame first_world"
    by (rule reachable_init [OF unit_interval_zeros first_world_built])
  then show ?thesis by (rule reachable_reset [OF _ restart_world_reached])
qed

lemma frame_step:
  assumes r: "reachable capped_frame w" and u: "World_update w (stride w) = Some w'"
  shows "reachable capped_frame w'"
proof -
  have "world_inv w" by (rule reachable_world_inv [OF r [unfolded frames_unfold]])
  then have s: "6 \<le> scrollSpeed w" by (rule world_inv_facts(5))
  then have "35.5 * 16.67 / scrollSpeed w \<le> 100"
    by (simp add: pos_divide_le_eq)
  moreover have "0 \<le> 35.5 * 16.67 / scrollSpeed w" using s by simp
  ultimately have "capped_frame (stride w)" by (simp add: capped_frame_def stride_def)
  then show ?thesis using r u by (blast intro: reachable_update)
qed

lemma frame_worlds_in_run:
  "reachable capped_frame frame_world_7" "reachable capped_frame frame_world_9"
proof -
  note 1 = frame_step [OF restart_world_in_run frame_world_1_reached]
  note 2 = frame_step [OF 1 frame_world_2_reached]
  note 3 = frame_step [OF 2 frame_world_3_reached]
  note 4 = frame_step [OF 3 frame_world_4_reached]
  note 5 = frame_step [OF 4 frame_world_5_reached]
  note 6 = frame_step [OF 5 frame_world_6_reached]
  show 7: "reachable capped_frame frame_world_7" by (rule frame_step [OF 6 frame_world_7_reached])
  note 8 = frame_step [OF 7 frame_world_8_reached]
  show "reachable capped_frame frame_world_9" by (rule frame_step [OF 8 frame_world_9_reached])
qed








section \<open>The platform under the feet of the player\<close>

lemma Player_update_on_roof:
  "y (snd (Player_update p dt gl)) + height (snd (Player_update p dt gl)) \<le> gl"
proof (cases "y p + min (velocityY p + 0.6 * (dt / 16.67)) 15 * (dt / 16.67) + height p > gl")
  case True
  from Player_update_snap(1) [OF True] show ?thesis by (simp add: Player_update_frame)
next
  case False
  from Player_update_free(1) [OF False] False show ?thesis by (simp add: Player_update_frame)
qed

lemma resolveTick_on_roof:
  assumes "y (player g3) + height (player g3) \<le> y b"
  shows "y (player (resolveTick g3 pY wG (Some b))) + height (player (resolveTick g3 pY wG (Some b)))
           \<le> y b"
    and "velocityY (player g3) = 0 \<Longrightarrow>
           grounded (player (resolveTick g3 pY wG (Some b))) = grounded (player g3)
           \<and> velocityY (player (resolveTick g3 pY wG (Some b))) = 0
           \<and> y (player (resolveTick g3 pY wG (Some b))) = y (player g3)"
proof -
  define g4 where "g4 = g3\<lparr>player := fst (landOnBuilding (player g3) (y b) (Some (audio g3))),
      audio := (case snd (landOnBuilding (player g3) (y b) (Some (audio g3))) of
                  Some l \<Rightarrow> l | None \<Rightarrow> audio g3)\<rparr>"
  define sc where "sc = (\<lambda>g :: game. g\<lparr>score := score g + (scrollSpeed (world g) / 10) * (deltaTime g / 16.67)\<rparr>)"
  have r: "resolveTick g3 pY wG (Some b) \<in> {killPlayer g3, sc g3}
           \<or> landingCheck (player g3) pY wG (Some b) = LandOn
             \<and> resolveTick g3 pY wG (Some b) \<in> {killPlayer g4, sc g4}"
    by (cases "landingCheck (player g3) pY wG (Some b)")
      (simp_all add: resolveTick_def Let_def g4_def sc_def case_prod_beta)
  have k: "y (player (killPlayer g)) = y (player g)"
    "height (player (killPlayer g)) = height (player g)"
    "grounded (player (killPlayer g)) = grounded (player g)"
    "velocityY (player (killPlayer g)) = velocityY (player g)"
    "y (player (sc g)) = y (player g)" "height (player (sc g)) = height (player g)"
    "grounded (player (sc g)) = grounded (player g)"
    "velocityY (player (sc g)) = velocityY (player g)" for g
    by (simp_all add: killPlayer_keeps killPlayer_fields sc_def)
  have y4: "y (player g4) + height (player g4) = y b"
    by (simp add: g4_def landOnBuilding_def)
  show "y (player (resolveTick g3 pY wG (Some b))) + height (player (resolveTick g3 pY wG (Some b)))
           \<le> y b"
    using r assms y4 by (auto simp: k)
  have nl: "landingCheck (player g3) pY wG (Some b) \<noteq> LandOn" if "velocityY (player g3) = 0"
    using that by (simp add: landingCheck_def)
  show "grounded (player (resolveTick g3 pY wG (Some b))) = grounded (player g3)
           \<and> velocityY (player (resolveTick g3 pY wG (Some b))) = 0
           \<and> y (player (resolveTick g3 pY wG (Some b))) = y (player g3)"
    if "velocityY (player g3) = 0"
    using r nl [OF that] that by (auto simp: k)
qed

lemma edge_tick:
  assumes inv: "world_inv w'" and upd: "World_update (world g) (deltaTime g) = Some w'"
    and a: "a \<in> set (buildings w')" "active (bld w' a)"
    and edge: "x (player g) + width (player g) / 2 = x (bld w' a) + width (bld w' a)"
  shows "getBuildingAt w' (x (player g) + width (player g) / 2) 1 = Some a"
    and "Game_update g =
           Some (resolveTick
                   ((heldJump g)\<lparr>world := w',
                      player := snd (Player_update (player (heldJump g)) (deltaTime g)
                                       (y (bld w' a)))\<rparr>)
                   (y (player g)) (grounded (player g)) (Some (bld w' a)))"
    and "\<exists>g'. Game_update g = Some g'
           \<and> y (player g') + height (player g') \<le> y (bld w' a)
           \<and> (y (player g) + height (player g) = y (bld w' a) \<and> 0 \<le> velocityY (player g)
                \<and> 0 < deltaTime g
              \<longrightarrow> grounded (player g') \<and> velocityY (player g') = 0
                  \<and> y (player g') = y (player g))"
proof -
  let ?b = "bld w' a" and ?p = "player (heldJump g)"
  note i = world_inv_facts [OF inv]
  have f: "list_all (platform_ok (100 / 16.67 * scrollSpeed w') w') (buildings w')"
    "separated 16 w'"
    using i(1) by (simp_all add: frontier_inv_def)
  have "120 \<le> width ?b" using f(1) a(1) by (auto simp: list_all_iff platform_ok_def)
  then have wd: "0 < width ?b" by simp
  have sep: "separated 0 w'"
    using f(2) unfolding separated_def by (rule sorted_wrt_mono_rel [rotated]) simp
  show gb: "getBuildingAt w' (x (player g) + width (player g) / 2) 1 = Some a"
    by (rule getBuildingAt_first [OF sep a wd edge])
  then have fb: "feetBuilding w' ?p = Some ?b"
    by (simp add: feetBuilding_def heldJump_frame)
  define g3 where "g3 = (heldJump g)\<lparr>world := w',
                      player := snd (Player_update ?p (deltaTime g) (y ?b))\<rparr>"
  have pt: "physicsTick g = Some g3"
    using upd fb
    by (simp add: physicsTick_def Let_def heldJump_frame playerPhysics_def groundLevelFor_def
        g3_def)
  show e: "Game_update g = Some (resolveTick g3 (y (player g)) (grounded (player g)) (Some ?b))"
    using fb by (simp add: Game_update_physicsTick pt heldJump_frame g3_def)
  have p3: "player g3 = snd (Player_update ?p (deltaTime g) (y ?b))" by (simp add: g3_def)
  have on: "y (player g3) + height (player g3) \<le> y ?b"
    unfolding p3 by (rule Player_update_on_roof)
  note r = resolveTick_on_roof [OF on, of "y (player g)" "grounded (player g)"]
  have s: "grounded (player g3) \<and> velocityY (player g3) = 0 \<and> y (player g3) = y (player g)"
    if h: "y (player g) + height (player g) = y ?b \<and> 0 \<le> velocityY (player g)
           \<and> 0 < deltaTime g"
  proof -
    have hj: "heldJump g = g" using h by (simp add: heldJump_falling)
    have "0 < deltaTime g / 16.67" using h by simp
    then have "0 < velocityY (player g) + 0.6 * (deltaTime g / 16.67)"
      using h by (intro add_nonneg_pos) simp_all
    then have "0 < min (velocityY (player g) + 0.6 * (deltaTime g / 16.67)) 15" by simp
    then have "0 < min (velocityY (player g) + 0.6 * (deltaTime g / 16.67)) 15
                     * (deltaTime g / 16.67)"
      using \<open>0 < deltaTime g / 16.67\<close> by (rule mult_pos_pos)
    then have c: "y (player g)
                   + min (velocityY (player g) + 0.6 * (deltaTime g / 16.67)) 15
                       * (deltaTime g / 16.67)
                   + height (player g) > y ?b"
      using h by linarith
    show ?thesis using Player_update_snap [OF c] h by (simp add: p3 hj)
  qed
  show "\<exists>g'. Game_update g = Some g'
           \<and> y (player g') + height (player g') \<le> y ?b
           \<and> (y (player g) + height (player g) = y ?b \<and> 0 \<le> velocityY (player g)
                \<and> 0 < deltaTime g
              \<longrightarrow> grounded (player g') \<and> velocityY (player g') = 0
                  \<and> y (player g') = y (player g))"
    using r s by (auto simp: e)
qed

text \<open>
  C10. \<open>getBuildingAt(x, width)\<close> treats the span of a platform as the closed interval
  from \<open>b.x\<close> to \<open>b.x + b.width\<close>. If some active platform of the list contains the
  point, the result is an active platform of the list that contains it; the result is
  \<open>null\<close> exactly when no active platform contains the point. In a tick of the game,
  that is when the world is one of a run with capped frame times and the frame time is
  between 0 and 100 ms, the update of the world returns; if then the player's feet are
  exactly at the right edge of an active platform \<open>b\<close> of the list, \<open>getBuildingAt\<close>
  returns \<open>b\<close>, and \<open>update\<close> runs \<open>player.update\<close> with the ground level \<open>b.y\<close> and
  its checks with \<open>b\<close> as the current platform. So the tick returns with the player's
  bottom edge not below the rooftop of \<open>b\<close>, and a player that stood on that rooftop
  before a tick of positive frame time stands on it afterwards.
\<close>

theorem getBuildingAt_closed_spans:
  "(a \<in> set (buildings w) \<and> active (bld w a)
      \<and> x (bld w a) \<le> px \<and> px \<le> x (bld w a) + width (bld w a) \<longrightarrow>
      (\<exists>c. getBuildingAt w px pw = Some c \<and> c \<in> set (buildings w) \<and> active (bld w c)
           \<and> x (bld w c) \<le> px \<and> px \<le> x (bld w c) + width (bld w c)))
   \<and> (getBuildingAt w px pw = None \<longleftrightarrow>
        \<not> (\<exists>c. c \<in> set (buildings w) \<and> active (bld w c)
               \<and> x (bld w c) \<le> px \<and> px \<le> x (bld w c) + width (bld w c)))
   \<and> (reachable capped_frame (world g) \<and> capped_frame (deltaTime g) \<longrightarrow>
        (\<exists>w'. World_update (world g) (deltaTime g) = Some w'
           \<and> (\<forall>e \<in> set (buildings w').
                 active (bld w' e)
                 \<and> x (player g) + width (player g) / 2 = x (bld w' e) + width (bld w' e)
               \<longrightarrow> getBuildingAt w' (x (player g) + width (player g) / 2) 1 = Some e
                   \<and> Game_update g =
                       Some (resolveTick
                               ((heldJump g)\<lparr>world := w',
                                  player := snd (Player_update (player (heldJump g))
                                                   (deltaTime g) (y (bld w' e)))\<rparr>)
                               (y (player g)) (grounded (player g)) (Some (bld w' e)))
                   \<and> (\<exists>g'. Game_update g = Some g'
                          \<and> y (player g') + height (player g') \<le> y (bld w' e)
                          \<and> (y (player g) + height (player g) = y (bld w' e)
                               \<and> 0 \<le> velocityY (player g) \<and> 0 < deltaTime g
                             \<longrightarrow> grounded (player g') \<and> velocityY (player g') = 0
                                 \<and> y (player g') = y (player g))))))"
proof -
  let ?P = "\<lambda>c. active (bld w c) \<and> px \<ge> x (bld w c) \<and> px \<le> x (bld w c) + width (bld w c)"
  have 2: "getBuildingAt w px pw = None \<longleftrightarrow>
        \<not> (\<exists>c. c \<in> set (buildings w) \<and> active (bld w c)
               \<and> x (bld w c) \<le> px \<and> px \<le> x (bld w c) + width (bld w c))"
    by (simp add: getBuildingAt_def find_None_iff)
  have 1: "\<exists>c. getBuildingAt w px pw = Some c \<and> c \<in> set (buildings w) \<and> active (bld w c)
           \<and> x (bld w c) \<le> px \<and> px \<le> x (bld w c) + width (bld w c)"
    if h: "a \<in> set (buildings w) \<and> active (bld w a)
      \<and> x (bld w a) \<le> px \<and> px \<le> x (bld w a) + width (bld w a)"
  proof -
    have "getBuildingAt w px pw \<noteq> None" using h 2 by blast
    then obtain c where c: "List.find ?P (buildings w) = Some c"
      by (auto simp: getBuildingAt_def)
    then have "c \<in> set (buildings w) \<and> ?P c"
      by (auto simp: find_Some_iff)
    then show ?thesis using c by (simp add: getBuildingAt_def)
  qed
  have 3: "\<exists>w'. World_update (world g) (deltaTime g) = Some w'
           \<and> (\<forall>e \<in> set (buildings w').
                 active (bld w' e)
                 \<and> x (player g) + width (player g) / 2 = x (bld w' e) + width (bld w' e)
               \<longrightarrow> getBuildingAt w' (x (player g) + width (player g) / 2) 1 = Some e
                   \<and> Game_update g =
                       Some (resolveTick
                               ((heldJump g)\<lparr>world := w',
                                  player := snd (Player_update (player (heldJump g))
                                                   (deltaTime g) (y (bld w' e)))\<rparr>)
                               (y (player g)) (grounded (player g)) (Some (bld w' e)))
                   \<and> (\<exists>g'. Game_update g = Some g'
                          \<and> y (player g') + height (player g') \<le> y (bld w' e)
                          \<and> (y (player g) + height (player g) = y (bld w' e)
                               \<and> 0 \<le> velocityY (player g) \<and> 0 < deltaTime g
                             \<longrightarrow> grounded (player g') \<and> velocityY (player g') = 0
                                 \<and> y (player g') = y (player g))))"
    if h: "reachable capped_frame (world g) \<and> capped_frame (deltaTime g)"
  proof -
    have wi: "world_inv (world g)"
      using h by (intro reachable_world_inv) (simp add: frames_unfold)
    obtain w' where upd: "World_update (world g) (deltaTime g) = Some w'"
      using capped_update_total [OF wi] h by blast
    have inv: "world_inv w'"
      using h by (intro world_inv_update [OF wi _ _ upd]) (simp_all add: capped_frame_def)
    show ?thesis
      using edge_tick [OF inv upd] upd by (intro exI [of _ w']) simp
  qed
  show ?thesis using 1 2 3 by blast
qed

lemma edge_values:
  "9 \<in> set (buildings frame_world_8)" "active (bld frame_world_8 9)"
  "x (bld frame_world_8 9) = - 284" "width (bld frame_world_8 9) = 400"
  "y (bld frame_world_8 9) = 500"
  "world edge_game = frame_world_7" "deltaTime edge_game = stride frame_world_7"
  "x (player edge_game) = 100" "width (player edge_game) = 32" "y (player edge_game) = 452"
  "height (player edge_game) = 48" "velocityY (player edge_game) = 0"
  "0 < stride frame_world_7" "stride frame_world_7 \<le> 100"
  by (simp_all add: frame_world_8_def bld_def edge_game_def started_game_def fresh_game_def
      Player_new_def stride_def frame_world_7_def)

theorem getBuildingAt_closed_spans_witness:
  "reachable capped_frame (world edge_game) \<and> capped_frame (deltaTime edge_game)
   \<and> World_update (world edge_game) (deltaTime edge_game) = Some frame_world_8
   \<and> 9 \<in> set (buildings frame_world_8) \<and> active (bld frame_world_8 9)
   \<and> x (bld frame_world_8 9) + width (bld frame_world_8 9) = 116
   \<and> x (player edge_game) + width (player edge_game) / 2 = 116
   \<and> getBuildingAt frame_world_8 116 1 = Some 9
   \<and> getBuildingAt frame_world_8 117 1 = None
   \<and> Game_update edge_game \<noteq> None
   \<and> grounded (player (the (Game_update edge_game)))
   \<and> y (player (the (Game_update edge_game))) = 452"
proof -
  note v = edge_values
  have r: "reachable capped_frame (world edge_game)" "capped_frame (deltaTime edge_game)"
    using frame_worlds_in_run(1) v(13,14) by (simp_all add: v(6,7) capped_frame_def)
  have upd: "World_update (world edge_game) (deltaTime edge_game) = Some frame_world_8"
    using frame_world_8_reached by (simp add: v)
  note t = getBuildingAt_closed_spans [of 9 frame_world_8 117 1 edge_game]
  have n: "getBuildingAt frame_world_8 117 1 = None"
    unfolding t [THEN conjunct2, THEN conjunct1]
    by (simp add: frame_world_8_def bld_def)
  from t [THEN conjunct2, THEN conjunct2, rule_format, OF conjI [OF r]]
  obtain w' where w': "World_update (world edge_game) (deltaTime edge_game) = Some w'"
    and b: "\<And>e. e \<in> set (buildings w') \<Longrightarrow> active (bld w' e) \<Longrightarrow>
              x (player edge_game) + width (player edge_game) / 2 = x (bld w' e) + width (bld w' e) \<Longrightarrow>
              getBuildingAt w' (x (player edge_game) + width (player edge_game) / 2) 1 = Some e
              \<and> (\<exists>g'. Game_update edge_game = Some g'
                     \<and> (y (player edge_game) + height (player edge_game) = y (bld w' e)
                          \<and> 0 \<le> velocityY (player edge_game) \<and> 0 < deltaTime edge_game
                        \<longrightarrow> grounded (player g') \<and> velocityY (player g') = 0
                            \<and> y (player g') = y (player edge_game)))"
    by blast
  have e: "w' = frame_world_8" using w' upd by simp
  have "getBuildingAt frame_world_8 116 1 = Some 9
        \<and> (\<exists>g'. Game_update edge_game = Some g' \<and> grounded (player g')
               \<and> y (player g') = 452)"
    using b [unfolded e, of 9] by (auto simp: v)
  then show ?thesis using r upd n by (auto simp: v)
qed

end
